theory Spec2Isabelle
  imports Complex_Main "HOL-Library.Word" "HOL-Library.Log_Nat"
begin

unbundle bit_operations_syntax

section \<open>Bytes, outcomes and the checksum\<close>

text \<open>
  A \<open>uint8_t\<close> is an \<open>8 word\<close>: addition wraps modulo 256.  C++ promotes a
  \<open>uint8_t\<close> operand of \<open>+\<close>, \<open>-\<close> and \<open>/\<close> to \<open>int\<close>; promoted
  expressions are written over \<open>int\<close> (every value that occurs lies between
  \<open>-1020\<close> and \<open>1020\<close>, so any \<open>int\<close> of 16 bits or more holds it) and
  narrowed to a byte with \<open>word_of_int\<close> where the source casts or assigns.
\<close>

type_synonym byte = "8 word"

text \<open>
  What a call can do besides returning.  The receive loop of \<open>sendcmd\<close> has no
  exit but the byte count, so a call may never return (\<open>Hangs\<close>).  A store or a
  load past the end of a fixed array and an integer division by zero have no defined
  behaviour in C++; the model stops there with \<open>Undefined\<close> and says nothing
  about what follows.
\<close>

datatype fault = ArrayOverrun | DivByZero

datatype 'a outcome = Hangs | Undefined fault | Returns 'a

fun obind :: "'a outcome \<Rightarrow> ('a \<Rightarrow> 'b outcome) \<Rightarrow> 'b outcome" where
  "obind Hangs f = Hangs"
| "obind (Undefined e) f = Undefined e"
| "obind (Returns x) f = f x"

text \<open>
  \<open>ECUData::mkcrc(buf, len)\<close>: the loop \<open>for (uint8_t i = 0; i < len; i++) crc = crc + buf[i]\<close>
  with an 8-bit counter and an 8-bit accumulator, then
  \<open>(uint8_t)(0xFF - (crc - 1))\<close>, computed in \<open>int\<close> and narrowed.  The caller
  passes a pointer and a length; the model reads \<open>buf ! i\<close> for \<open>i < len\<close>, so
  every use below has \<open>unat len \<le> length buf\<close>.
\<close>

function mkcrc_loop :: "byte list \<Rightarrow> byte \<Rightarrow> byte \<Rightarrow> byte \<Rightarrow> byte" where
  "mkcrc_loop buf len i crc =
     (if i < len then mkcrc_loop buf len (i + 1) (crc + buf ! unat i) else crc)"
  by pat_completeness auto
termination
proof (relation "measure (\<lambda>(buf, len, i, crc). unat len - unat i)")
  show "wf (measure (\<lambda>(buf :: byte list, len :: byte, i :: byte, crc :: byte). unat len - unat i))"
    by simp
next
  fix buf :: "byte list" and len i crc :: byte
  assume lt: "i < len"
  then have "unat (i + 1) = unat i + 1"
    by (metis (no_types, lifting) add.commute add_0 inc_i inc_le
        unat_plus_simple unsigned_0 unsigned_1 word_gt_0)
  moreover from lt have "unat i < unat len"
    by (simp add: word_less_nat_alt)
  ultimately show "((buf, len, i + 1, crc + buf ! unat i), (buf, len, i, crc))
      \<in> measure (\<lambda>(buf, len, i, crc). unat len - unat i)"
    by simp
qed

declare mkcrc_loop.simps [simp del]

definition mkcrc :: "byte list \<Rightarrow> byte \<Rightarrow> byte" where
  "mkcrc buf len = word_of_int (0xFF - (uint (mkcrc_loop buf len 0 0) - 1))"

section \<open>Host frames\<close>

definition SOF1 :: byte where "SOF1 = 0xAA"
definition SOF2 :: byte where "SOF2 = 0x55"

text \<open>
  \<open>sendFrame(out, type, payload, len)\<close> of main.cpp.  The stream \<open>out\<close> is the
  list of bytes written to the host link so far.  \<open>mkcrc(payload, len)\<close> and
  \<open>out.write(payload, len)\<close> read \<open>len\<close> bytes of \<open>payload\<close>; with fewer
  bytes behind the pointer the read leaves the array.
\<close>

definition sendFrame :: "byte list \<Rightarrow> byte \<Rightarrow> byte list \<Rightarrow> byte \<Rightarrow> byte list outcome" where
  "sendFrame out type payload len =
     (if length payload < unat len then Undefined ArrayOverrun
      else
        let header = [SOF1, SOF2, type, len];
            crc = 0;
            crc = crc + mkcrc header 4;
            crc = crc + mkcrc payload len;
            out = out @ header;
            out = (if len \<noteq> 0 then out @ take (unat len) payload else out)
        in Returns (out @ [crc AND 0xFF]))"

section \<open>The ECU session object\<close>

definition MSG_OFFSET :: nat where "MSG_OFFSET = 3"
definition RPL_OFFSET :: nat where "RPL_OFFSET = 2"
definition HOBD_CMD :: byte where "HOBD_CMD = 0x20"
definition HOBD_RST :: byte where "HOBD_RST = 0x21"
definition ErrLen :: nat where "ErrLen = 14"
definition DataLen :: nat where "DataLen = 20"

record EcuCmd =
  cmd :: byte
  txlen :: byte
  reg :: byte
  rxlen :: byte
  crc :: byte

datatype ErrCodes = ChecksumErr | TimeoutErr | DTCErr

text \<open>
  The half-duplex line \<open>dlc\<close>.  \<open>rx\<close> lists what the coming polls will see, one
  entry for each call of \<open>dlc.available()\<close>: \<open>None\<close> when nothing waits,
  \<open>Some b\<close> when a byte waits and \<open>dlc.read()\<close> then returns \<open>b\<close>.  After the
  last entry the line stays silent for ever, so a loop that still polls then never
  comes back.  \<open>tx\<close> is every byte written with \<open>dlc.write\<close>, oldest first.
\<close>

record serial =
  rx :: "byte option list"
  tx :: "byte list"

text \<open>
  The members of \<open>class ECUData\<close> that \<open>sendcmd\<close>, \<open>scanDtc\<close>,
  \<open>resetEcu\<close> and \<open>readLiveData\<close> read or write (the remaining members are
  touched by none of them).  \<open>maps\<close> and \<open>inj\<close> carry a suffix because HOL
  has constants of these names.  The arrays \<open>dlcData[20]\<close>, \<open>dtcErrs[14]\<close> and
  \<open>Errs[14]\<close> are lists of that length (\<open>arrays_ok\<close>).  \<open>size_t\<close> counters
  are \<open>nat\<close>: they only count up by one per stored entry.  An \<open>int\<close> member is
  an \<open>int\<close>; this stands for an \<open>int\<close> wide enough for the stored values (the
  largest is 1875000).  A \<open>float\<close> member is the rational number the
  floating-point value denotes.
\<close>

record ECUData =
  dlc :: serial
  dlcData :: "byte list"
  dtcErrs :: "byte list"
  Errs :: "ErrCodes list"
  errLen :: nat
  dtcLen :: nat
  dlctmo :: "16 word"
  rpm :: int
  ect :: int
  iat :: int
  maps_kpa :: int
  baro :: int
  tps :: int
  sft :: int
  lft :: int
  inj_pw :: int
  ign :: int
  lmt :: int
  iacv :: int
  knoc :: int
  volt :: rat
  o2 :: rat
  vss :: byte
  alt_fr :: rat
  eld :: rat
  main_relay :: bool
  cel :: bool
  sw_aircon :: bool
  sw_brake :: bool
  sw_vtec :: bool
  sw_starter :: bool
  maf :: int
  obd_sel :: byte

definition arrays_ok :: "ECUData \<Rightarrow> bool" where
  "arrays_ok s = (length (dlcData s) = DataLen \<and> length (dtcErrs s) = ErrLen
                  \<and> length (Errs s) = ErrLen)"

section \<open>One transaction: sendcmd\<close>

text \<open>The local array \<open>tx[5]\<close> with the checksum expression written inline in \<open>sendcmd\<close>.\<close>

definition tx_frame :: "EcuCmd \<Rightarrow> byte list" where
  "tx_frame ecmd =
     (let crc = word_of_int (0xFF - (uint (cmd ecmd) + uint (txlen ecmd) + uint (reg ecmd)
                                      + uint (rxlen ecmd) - 0x01))
      in [cmd ecmd, txlen ecmd, reg ecmd, rxlen ecmd, crc])"

text \<open>
  The receive loop \<open>while (i < expected) { if (dlc.available()) dlcData[i++] = dlc.read(); }\<close>.
  The comparison with the timer is commented out in the source, so it is absent here.
  \<open>i\<close> and \<open>expected\<close> are \<open>uint16_t\<close> and never exceed 258.  A store at
  \<open>i \<ge> 20\<close> leaves \<open>dlcData\<close>.
\<close>

fun rx_loop :: "nat \<Rightarrow> nat \<Rightarrow> byte list \<Rightarrow> byte option list
                \<Rightarrow> (nat \<times> byte list \<times> byte option list) outcome" where
  "rx_loop expected i buf evs =
     (if i < expected then
        (case evs of
           [] \<Rightarrow> Hangs
         | None # evs' \<Rightarrow> rx_loop expected i buf evs'
         | Some b # evs' \<Rightarrow>
             if i < length buf then rx_loop expected (i + 1) (buf[i := b]) evs'
             else Undefined ArrayOverrun)
      else Returns (i, buf, evs))"

declare rx_loop.simps [simp del]

text \<open>\<open>Errs[errLen++] = e\<close>; the array has \<open>ErrLen\<close> entries.\<close>

definition push_err :: "ErrCodes \<Rightarrow> ECUData \<Rightarrow> ECUData outcome" where
  "push_err e s =
     (if errLen s < ErrLen
      then Returns (s\<lparr>Errs := (Errs s)[errLen s := e], errLen := errLen s + 1\<rparr>)
      else Undefined ArrayOverrun)"

text \<open>
  \<open>ECUData::sendcmd(EcuCmd &ecmd)\<close>.  The result is the returned \<open>bool\<close>, the
  command with its \<open>crc\<close> filled in (it is passed by reference) and the object
  afterwards.  \<open>dlc.listen()\<close> changes nothing that is modelled.
\<close>

definition sendcmd :: "EcuCmd \<Rightarrow> ECUData \<Rightarrow> (bool \<times> EcuCmd \<times> ECUData) outcome" where
  "sendcmd ecmd s =
     (let s = s\<lparr>dlcData := replicate DataLen 0\<rparr>;
          txf = tx_frame ecmd;
          ecmd = ecmd\<lparr>crc := txf ! 4\<rparr>;
          s = s\<lparr>dlcData := replicate DataLen 0\<rparr>;
          s = s\<lparr>dlc := (dlc s)\<lparr>tx := tx (dlc s) @ txf\<rparr>\<rparr>;
          expected = unat (rxlen ecmd) + MSG_OFFSET
      in obind (rx_loop expected 0 (dlcData s) (rx (dlc s))) (\<lambda>(i, buf, evs).
           let s = s\<lparr>dlcData := buf, dlc := (dlc s)\<lparr>rx := evs\<rparr>\<rparr>
           in if i < expected then
                obind (push_err TimeoutErr (s\<lparr>dlctmo := dlctmo s + 1\<rparr>))
                  (\<lambda>s. Returns (False, ecmd, s))
              else
                let rxCrc = dlcData s ! (expected - 1);
                    calc = mkcrc (dlcData s) (of_nat (expected - 1))
                in if calc \<noteq> rxCrc then
                     obind (push_err ChecksumErr s) (\<lambda>s. Returns (False, ecmd, s))
                   else Returns (True, ecmd, s)))"

text \<open>
  \<open>ECUData::resetEcu()\<close>.  The caller leaves \<open>cmd.crc\<close> unset, and nothing
  reads it before \<open>sendcmd\<close> assigns it; the model starts it at 0.
\<close>

definition resetEcu :: "ECUData \<Rightarrow> (bool \<times> ECUData) outcome" where
  "resetEcu s =
     obind (sendcmd \<lparr>cmd = HOBD_RST, txlen = 0x04, reg = 0x01, rxlen = 0x0, crc = 0\<rparr> s)
       (\<lambda>(ok, c, s). if \<not> ok then Returns (False, s) else Returns (True, s))"

section \<open>The trouble-code scan\<close>

text \<open>
  One pass of the body of \<open>for (i = 0; i < 14; i++)\<close> in \<open>scanDtc\<close>.  Both stores
  go to \<open>dtcErrs[i]\<close>; the two comparisons with 23 and 24 sit inside the branch of
  the low nibble, after the store of \<open>i * 2 + 1\<close>.
\<close>

definition dtc_step :: "nat \<Rightarrow> ECUData \<Rightarrow> ECUData" where
  "dtc_step i s =
     (let s = (if drop_bit 4 (dlcData s ! (i + 2)) \<noteq> 0
               then s\<lparr>dtcErrs := (dtcErrs s)[i := of_nat (i * 2)], dtcLen := dtcLen s + 1\<rparr>
               else s)
      in if (dlcData s ! (i + 2)) AND 0xf \<noteq> 0
         then
           let s = s\<lparr>dtcErrs := (dtcErrs s)[i := of_nat (i * 2 + 1)]\<rparr>;
               s = (if dtcErrs s ! i = 23 then s\<lparr>dtcErrs := (dtcErrs s)[i := 22]\<rparr> else s);
               s = (if dtcErrs s ! i = 24 then s\<lparr>dtcErrs := (dtcErrs s)[i := 23]\<rparr> else s)
           in s\<lparr>dtcLen := dtcLen s + 1\<rparr>
         else s)"

function dtc_loop :: "nat \<Rightarrow> ECUData \<Rightarrow> ECUData" where
  "dtc_loop i s = (if i < 14 then dtc_loop (i + 1) (dtc_step i s) else s)"
  by pat_completeness auto
termination
  by (relation "measure (\<lambda>(i, s). 14 - i)") auto

declare dtc_loop.simps [simp del]

definition scanDtc :: "ECUData \<Rightarrow> (bool \<times> ECUData) outcome" where
  "scanDtc s =
     (let s = s\<lparr>dtcLen := 0\<rparr>;
          c = \<lparr>cmd = HOBD_CMD, txlen = 0x05, reg = 0x40, rxlen = 0x10, crc = 0\<rparr>
      in obind (sendcmd c s)
           (\<lambda>(ok, c, s). if \<not> ok then Returns (False, s) else Returns (True, dtc_loop 0 s)))"

section \<open>Floating-point and integer arithmetic of the decoder\<close>

text \<open>
  \<open>readLiveData\<close> computes in \<open>float\<close> and \<open>double\<close>.  The model takes
  \<open>float\<close> to be IEEE-754 binary32 and \<open>double\<close> binary64, every operation
  rounded on its own to nearest, ties to even.  A finite floating-point value is the
  rational number it denotes.  All operands here come from bytes, 16-bit words and
  constants, so no infinity or NaN can arise and overflow of the exponent is left out.

  \<open>rne\<close> rounds to the nearest integer, ties to even.  \<open>ilog2 x\<close> is the exponent
  \<open>e\<close> with \<open>2^e \<le> x < 2^(e+1)\<close> for positive \<open>x\<close>.  \<open>round_fl p emin\<close>
  rounds to \<open>p\<close> significant bits with least exponent \<open>emin\<close> (below it the
  spacing stays that of the subnormal numbers).
\<close>

definition rne :: "rat \<Rightarrow> int" where
  "rne x = (let f = \<lfloor>x\<rfloor>; d = x - of_int f
            in if d < 1 / 2 then f else if 1 / 2 < d then f + 1
               else if even f then f else f + 1)"

definition ilog2 :: "rat \<Rightarrow> int" where
  "ilog2 x = (let (a, b) = quotient_of x; k = bitlen a - bitlen b
              in if 2 powi k \<le> x then k else k - 1)"

definition round_fl :: "nat \<Rightarrow> int \<Rightarrow> rat \<Rightarrow> rat" where
  "round_fl p emin x =
     (if x = 0 then 0
      else let e = max (ilog2 \<bar>x\<bar>) emin; u = 2 powi (e - int p + 1)
           in of_int (rne (x / u)) * u)"

definition f32 :: "rat \<Rightarrow> rat" where "f32 = round_fl 24 (- 126)"
definition f64 :: "rat \<Rightarrow> rat" where "f64 = round_fl 53 (- 1022)"

text \<open>
  Conversion of a floating-point value to \<open>int\<close> drops the fraction.  C++ integer
  division truncates toward zero as well; its divisor is non-zero wherever \<open>tdiv\<close> is
  used below.
\<close>

definition trunc :: "rat \<Rightarrow> int" where
  "trunc x = (if 0 \<le> x then \<lfloor>x\<rfloor> else \<lceil>x\<rceil>)"

definition tdiv :: "int \<Rightarrow> int \<Rightarrow> int" where
  "tdiv a b = (if (a < 0) = (b < 0) then \<bar>a\<bar> div \<bar>b\<bar> else - (\<bar>a\<bar> div \<bar>b\<bar>))"

text \<open>\<open>rx_u16(buffer, offset)\<close>: \<open>(uint16_t)(buffer[offset] << 8 | buffer[offset + 1])\<close>.\<close>

definition rx_u16 :: "byte list \<Rightarrow> nat \<Rightarrow> 16 word" where
  "rx_u16 buffer offset = push_bit 8 (ucast (buffer ! offset)) OR ucast (buffer ! (offset + 1))"

text \<open>
  \<open>cnvt_tmp(float f)\<close>.  The literals are \<open>double\<close>, so the polynomial is
  evaluated in \<open>double\<close>, left to right, and narrowed to \<open>float\<close> on return.
  \<open>pow\<close> belongs to the C library; it is taken to return the correctly rounded power.
\<close>

definition pow_d :: "rat \<Rightarrow> nat \<Rightarrow> rat" where
  "pow_d x n = f64 (x ^ n)"

definition cnvt_tmp :: "rat \<Rightarrow> rat" where
  "cnvt_tmp f =
     (let a = f64 (f64 (5504149 / 100000) - f64 (f * f64 (30414878 / 10000000)));
          a = f64 (a + f64 (pow_d f 2 * f64 (3952185 / 100000000)));
          a = f64 (a - f64 (pow_d f 3 * f64 (29383913 / 100000000000)));
          a = f64 (a + f64 (pow_d f 4 * f64 (10792568 / 10000000000000)));
          a = f64 (a - f64 (pow_d f 5 * f64 (15618437 / 10000000000000000)))
      in f32 a)"

text \<open>The lambda \<open>conv_kpa\<close> of the second block: \<open>v * 0.716f - 5.0f\<close>.\<close>

definition conv_kpa :: "byte \<Rightarrow> rat" where
  "conv_kpa v = f32 (f32 (f32 (of_int (uint v)) * f32 (716 / 1000)) - f32 5)"

section \<open>Reading the live data\<close>

definition HOBD_OFF_RPM :: nat where "HOBD_OFF_RPM = 0x00"
definition HOBD_OFF_VSS :: nat where "HOBD_OFF_VSS = 0x02"
definition HOBD_OFF_FLAG_08 :: nat where "HOBD_OFF_FLAG_08 = 0x08"
definition HOBD_OFF_FLAG_0B :: nat where "HOBD_OFF_FLAG_0B = 0x0B"
definition HOBD_OFF_ECT :: nat where "HOBD_OFF_ECT = 0x10"
definition HOBD_OFF_IAT :: nat where "HOBD_OFF_IAT = 0x11"
definition HOBD_OFF_MAP :: nat where "HOBD_OFF_MAP = 0x12"
definition HOBD_OFF_TPS :: nat where "HOBD_OFF_TPS = 0x14"
definition HOBD_OFF_O2 :: nat where "HOBD_OFF_O2 = 0x15"
definition HOBD_OFF_VOLT :: nat where "HOBD_OFF_VOLT = 0x15"
definition HOBD_OFF_ALTF :: nat where "HOBD_OFF_ALTF = 0x18"
definition HOBD_OFF_EL :: nat where "HOBD_OFF_EL = 0x19"

definition HOBD_FLG_STARTER :: byte where "HOBD_FLG_STARTER = push_bit 0 1"
definition HOBD_FLG_AC_SWITCH :: byte where "HOBD_FLG_AC_SWITCH = push_bit 1 1"
definition HOBD_FLG_BRAKE :: byte where "HOBD_FLG_BRAKE = push_bit 3 1"
definition HOBD_FLG_VTEC_PRESS :: byte where "HOBD_FLG_VTEC_PRESS = push_bit 7 1"
definition HOBD_FLG_MAIN_RELAY :: byte where "HOBD_FLG_MAIN_RELAY = push_bit 0 1"
definition HOBD_FLG_CEL :: byte where "HOBD_FLG_CEL = push_bit 5 1"

text \<open>The command \<open>{HOBD_CMD, 0x05, reg, 0x10}\<close> that each of the four blocks builds.\<close>

definition row_cmd :: "nat \<Rightarrow> EcuCmd" where
  "row_cmd r = \<lparr>cmd = HOBD_CMD, txlen = 0x05, reg = of_nat r, rxlen = 0x10, crc = 0\<rparr>"

text \<open>
  The statements of the first block after its transaction.  \<open>rpm\<close> is assigned only
  under \<open>obd_sel == 1\<close>; the clamp at 0 applies to whatever \<open>rpm\<close> then holds.
\<close>

definition row0_decode :: "ECUData \<Rightarrow> ECUData" where
  "row0_decode s =
     (let rawRpm = rx_u16 (dlcData s) (RPL_OFFSET + HOBD_OFF_RPM);
          s = (if obd_sel s = 1
               then s\<lparr>rpm := trunc (f32 (f32 1875000 / f32 (f32 (of_int (uint rawRpm)) + f32 1)))\<rparr>
               else s);
          s = (if rpm s < 0 then s\<lparr>rpm := 0\<rparr> else s);
          s = s\<lparr>vss := dlcData s ! (RPL_OFFSET + HOBD_OFF_VSS)\<rparr>;
          f08 = dlcData s ! (RPL_OFFSET + HOBD_OFF_FLAG_08);
          f0B = dlcData s ! (RPL_OFFSET + HOBD_OFF_FLAG_0B)
      in s\<lparr>sw_aircon := (f08 AND HOBD_FLG_AC_SWITCH \<noteq> 0),
            sw_brake := (f08 AND HOBD_FLG_BRAKE \<noteq> 0),
            sw_starter := (f08 AND HOBD_FLG_STARTER \<noteq> 0),
            sw_vtec := (f08 AND HOBD_FLG_VTEC_PRESS \<noteq> 0),
            main_relay := (f0B AND HOBD_FLG_MAIN_RELAY \<noteq> 0),
            cel := (f0B AND HOBD_FLG_CEL \<noteq> 0)\<rparr>)"

text \<open>
  The second block.  \<open>tps\<close> is computed in \<open>int\<close>.  \<open>alt_fr\<close> and \<open>eld\<close>
  divide by \<open>double\<close> literals, so they are computed in \<open>double\<close> and narrowed.
\<close>

definition row1_decode :: "ECUData \<Rightarrow> ECUData" where
  "row1_decode s =
     (let d = dlcData s;
          s = s\<lparr>ect := trunc (cnvt_tmp (f32 (of_int (uint (d ! RPL_OFFSET)))))\<rparr>;
          s = s\<lparr>iat := trunc (cnvt_tmp (f32 (of_int (uint
                          (d ! (RPL_OFFSET + HOBD_OFF_IAT - HOBD_OFF_ECT))))))\<rparr>;
          s = s\<lparr>maps_kpa := trunc (conv_kpa (d ! (RPL_OFFSET + HOBD_OFF_MAP - HOBD_OFF_ECT)))\<rparr>;
          s = s\<lparr>baro := trunc (conv_kpa (d ! (RPL_OFFSET + HOBD_OFF_MAP + 1 - HOBD_OFF_ECT)))\<rparr>;
          s = s\<lparr>tps := tdiv (uint (d ! (RPL_OFFSET + HOBD_OFF_TPS - HOBD_OFF_ECT)) - 24) 2\<rparr>;
          f = f32 (of_int (uint (d ! (RPL_OFFSET + HOBD_OFF_O2 - HOBD_OFF_ECT))));
          s = s\<lparr>o2 := f32 (f / f32 (513 / 10))\<rparr>;
          f = f32 (of_int (uint (d ! (RPL_OFFSET + HOBD_OFF_VOLT - HOBD_OFF_ECT))));
          s = s\<lparr>volt := f32 (f / f32 (1045 / 100))\<rparr>;
          f = f32 (of_int (uint (d ! (RPL_OFFSET + HOBD_OFF_ALTF - HOBD_OFF_ECT))));
          s = s\<lparr>alt_fr := f32 (f64 (f / f64 (255 / 100)))\<rparr>;
          f = f32 (of_int (uint (d ! (RPL_OFFSET + HOBD_OFF_EL - HOBD_OFF_ECT))))
      in s\<lparr>eld := f32 (f64 (f64 (7706 / 100) - f64 (f / f64 (25371 / 10000))))\<rparr>)"

definition row2_decode :: "ECUData \<Rightarrow> ECUData" where
  "row2_decode s =
     (let d = dlcData s;
          sft_raw = d ! RPL_OFFSET;
          lft_raw = d ! (RPL_OFFSET + 1);
          s = s\<lparr>sft := trunc (f32 (f32 (f32 (f32 (of_int (uint sft_raw)) / f32 128) - f32 1)
                                    * f32 100))\<rparr>;
          s = s\<lparr>lft := trunc (f32 (f32 (f32 (f32 (of_int (uint lft_raw)) / f32 128) - f32 1)
                                    * f32 100))\<rparr>;
          injRaw = rx_u16 d (RPL_OFFSET + 4);
          s = s\<lparr>inj_pw := trunc (f32 (f32 (of_int (uint injRaw)) / f32 250))\<rparr>;
          f = f32 (of_int (uint (d ! 8)));
          s = s\<lparr>ign := trunc (f32 (f32 (f - f32 24) / f32 4))\<rparr>;
          f = f32 (of_int (uint (d ! 9)));
          s = s\<lparr>lmt := trunc (f32 (f32 (f - f32 24) / f32 4))\<rparr>
      in s\<lparr>iacv := trunc (f32 (f32 (of_int (uint (d ! 10))) / f32 (255 / 100)))\<rparr>)"

definition row3_decode :: "ECUData \<Rightarrow> ECUData" where
  "row3_decode s = s\<lparr>knoc := tdiv (uint (dlcData s ! 14)) 51\<rparr>"

text \<open>
  The two statements after the fourth block.  \<open>80 / 100\<close> is an integer division, and
  the integer product is converted to \<open>double\<close> for the remaining factors.  A zero
  divisor \<open>iat + 273\<close> has no defined result.
\<close>

definition maf_update :: "ECUData \<Rightarrow> (bool \<times> ECUData) outcome" where
  "maf_update s =
     (if iat s + 273 = 0 then Undefined DivByZero
      else
        let imap = tdiv (tdiv (rpm s * maps_kpa s) (iat s + 273)) 2;
            m = f64 (f64 (f64 (f64 (of_int (tdiv imap 60 * tdiv 80 100)) * f64 (1595 / 1000))
                          * f64 (289644 / 10000)) / f64 (8314472 / 1000000))
        in Returns (True, s\<lparr>maf := trunc m\<rparr>))"

text \<open>\<open>ECUData::readLiveData()\<close>; \<open>delay(1)\<close> between the blocks changes nothing modelled.\<close>

definition readLiveData :: "ECUData \<Rightarrow> (bool \<times> ECUData) outcome" where
  "readLiveData s =
     obind (sendcmd (row_cmd HOBD_OFF_RPM) s) (\<lambda>(ok, c, s).
       if \<not> ok then Returns (False, s)
       else
         let s = row0_decode s
         in obind (sendcmd (row_cmd HOBD_OFF_ECT) s) (\<lambda>(ok, c, s).
              if \<not> ok then Returns (False, s)
              else
                let s = row1_decode s
                in obind (sendcmd (row_cmd 0x20) s) (\<lambda>(ok, c, s).
                     if \<not> ok then Returns (False, s)
                     else
                       let s = row2_decode s
                       in obind (sendcmd (row_cmd 0x30) s) (\<lambda>(ok, c, s).
                            if \<not> ok then Returns (False, s)
                            else
                              let s = row3_decode s
                              in maf_update s))))"

section \<open>Auxiliary notions for the statements\<close>

text \<open>The bytes that a stretch of polls delivers, in order.\<close>

fun bytes_of :: "byte option list \<Rightarrow> byte list" where
  "bytes_of [] = []"
| "bytes_of (None # es) = bytes_of es"
| "bytes_of (Some b # es) = b # bytes_of es"

text \<open>
  The object right after \<open>ECUData ecu(obd_sel_in, dlc_in)\<close>: the default member
  initialisers of the class.  \<open>Errs\<close> has none, so its first content is a parameter.
\<close>

definition ECUData_new :: "byte \<Rightarrow> serial \<Rightarrow> ErrCodes list \<Rightarrow> ECUData" where
  "ECUData_new obd_sel_in dlc_in errs =
     \<lparr>dlc = dlc_in, dlcData = replicate DataLen 0, dtcErrs = replicate ErrLen 0,
      Errs = errs, errLen = 0, dtcLen = 0, dlctmo = 0,
      rpm = 0, ect = 0, iat = 0, maps_kpa = 0, baro = 0, tps = 0, sft = 0, lft = 0,
      inj_pw = 0, ign = 0, lmt = 0, iacv = 0, knoc = 0, volt = 0, o2 = 0, vss = 0,
      alt_fr = 0, eld = 0, main_relay = False, cel = False, sw_aircon = False,
      sw_brake = False, sw_vtec = False, sw_starter = False, maf = 0,
      obd_sel = obd_sel_in\<rparr>"

text \<open>A fresh object on a line whose coming polls are \<open>evs\<close>, as main.cpp builds it (\<open>obd_sel = 1\<close>).\<close>

definition ecu_on :: "byte option list \<Rightarrow> ECUData" where
  "ecu_on evs = ECUData_new 1 \<lparr>rx = evs, tx = []\<rparr> (replicate ErrLen DTCErr)"

text \<open>The members that each block of \<open>readLiveData\<close> assigns.\<close>

definition row0_fields :: "ECUData \<Rightarrow> int \<times> byte \<times> bool \<times> bool \<times> bool \<times> bool \<times> bool \<times> bool" where
  "row0_fields s = (rpm s, vss s, sw_aircon s, sw_brake s, sw_starter s, sw_vtec s,
                    main_relay s, cel s)"

definition row1_fields :: "ECUData \<Rightarrow> int \<times> int \<times> int \<times> int \<times> int \<times> rat \<times> rat \<times> rat \<times> rat" where
  "row1_fields s = (ect s, iat s, maps_kpa s, baro s, tps s, o2 s, volt s, alt_fr s, eld s)"

definition row2_fields :: "ECUData \<Rightarrow> int \<times> int \<times> int \<times> int \<times> int \<times> int" where
  "row2_fields s = (sft s, lft s, inj_pw s, ign s, lmt s, iacv s)"

text \<open>
  Replies of 19 bytes for the concrete runs below: two header bytes, sixteen payload
  bytes and the checksum byte.  \<open>reply_row0\<close> carries the raw engine-speed word
  \<open>0x03E7 = 999\<close>; \<open>reply_bad\<close> ends in a wrong checksum byte.
\<close>

definition reply_row0 :: "byte list" where
  "reply_row0 = [0, 0, 0x03, 0xE7, 50, 0, 0, 0, 0, 0, 0x0A, 0, 0, 0x21, 0, 0, 0, 0, 0xB9]"

definition reply_row1 :: "byte list" where
  "reply_row1 = [0, 0, 100, 120, 50, 140, 44, 128, 0, 0, 51, 25, 0, 0, 0, 0, 0, 0, 0x6E]"

definition reply_row2 :: "byte list" where
  "reply_row2 = [0, 0, 130, 120, 0, 0, 0x03, 0xE8, 44, 64, 51, 0, 0, 0, 0, 0, 0, 0, 0x7C]"

definition reply_row3 :: "byte list" where
  "reply_row3 = [0, 0, 0, 0, 0, 0, 0, 0, 0, 0, 0, 0, 0, 0, 102, 0, 0, 0, 0x9A]"

definition reply_bad :: "byte list" where
  "reply_bad = [0, 0, 0, 0, 0, 0, 0, 0, 0, 0, 0, 0, 0, 0, 0, 0, 0, 0, 1]"

text \<open>
  The object that fourteen reset transactions with the reply \<open>00 00 01\<close> (a wrong
  checksum byte) leave behind: the log is full, \<open>errLen = 14\<close>.  The polls still to
  come are \<open>evs\<close>.
\<close>

definition ecu_full :: "byte option list \<Rightarrow> ECUData" where
  "ecu_full evs = (ecu_on [])\<lparr>dlc := \<lparr>rx = evs, tx = concat (replicate 14 [0x21, 4, 1, 0, 0xDA])\<rparr>,
                     dlcData := [0, 0, 1] @ replicate 17 0,
                     Errs := replicate 14 ChecksumErr, errLen := 14\<rparr>"

text \<open>
  What remains of \<open>readLiveData\<close> from its second, third and fourth block on
  (\<open>readLiveData_rows\<close> below joins them to the definition above).
\<close>

definition readRows3 :: "ECUData \<Rightarrow> (bool \<times> ECUData) outcome" where
  "readRows3 s =
     obind (sendcmd (row_cmd 0x30) s) (\<lambda>(ok, c, s).
       if \<not> ok then Returns (False, s) else let s = row3_decode s in maf_update s)"

definition readRows2 :: "ECUData \<Rightarrow> (bool \<times> ECUData) outcome" where
  "readRows2 s =
     obind (sendcmd (row_cmd 0x20) s) (\<lambda>(ok, c, s).
       if \<not> ok then Returns (False, s) else let s = row2_decode s in readRows3 s)"

definition readRows1 :: "ECUData \<Rightarrow> (bool \<times> ECUData) outcome" where
  "readRows1 s =
     obind (sendcmd (row_cmd HOBD_OFF_ECT) s) (\<lambda>(ok, c, s).
       if \<not> ok then Returns (False, s) else let s = row1_decode s in readRows2 s)"

text \<open>A fresh object configured with \<open>obd_sel = 2\<close>, and a reply of nineteen zero bytes.\<close>

definition ecu2_on :: "byte option list \<Rightarrow> ECUData" where
  "ecu2_on evs = ECUData_new 2 \<lparr>rx = evs, tx = []\<rparr> (replicate ErrLen DTCErr)"

definition reply_zero :: "byte list" where
  "reply_zero = replicate 19 0"

text \<open>
  A reply for register 0x10 with raw manifold pressure 1, raw barometric pressure 0
  and raw throttle 24.
\<close>

definition reply_row1_low :: "byte list" where
  "reply_row1_low = [0, 0, 0, 0, 1, 0, 24, 0, 0, 0, 0, 0, 0, 0, 0, 0, 0, 0, 0xE7]"

text \<open>What a call returned, if it returned.\<close>

fun returned :: "'a outcome \<Rightarrow> 'a option" where
  "returned (Returns x) = Some x"
| "returned Hangs = None"
| "returned (Undefined e) = None"

section \<open>The checksum\<close>

lemma unat_inc_lt: "(i::byte) < len \<Longrightarrow> unat (i + 1) = unat i + 1"
  by (metis (no_types, lifting) add.commute add_0 inc_i inc_le
        unat_plus_simple unsigned_0 unsigned_1 word_gt_0)

lemma mkcrc_loop_sum:
  "i \<le> len \<Longrightarrow> unat len \<le> length buf \<Longrightarrow>
   mkcrc_loop buf len i acc = acc + sum_list (drop (unat i) (take (unat len) buf))"
proof (induction buf len i acc rule: mkcrc_loop.induct)
  case (1 buf len i acc)
  show ?case
  proof (cases "i < len")
    case True
    then have u: "unat (i + 1) = unat i + 1" by (rule unat_inc_lt)
    from True have lt: "unat i < unat len" by (simp add: word_less_nat_alt)
    then have le: "i + 1 \<le> len" using u by (simp add: word_le_nat_alt)
    have d: "drop (unat i) (take (unat len) buf)
             = buf ! unat i # drop (unat i + 1) (take (unat len) buf)"
    proof -
      have "unat i < length (take (unat len) buf)" using lt "1.prems"(2) by simp
      from Cons_nth_drop_Suc [OF this] show ?thesis using lt by simp
    qed
    have "mkcrc_loop buf len i acc = mkcrc_loop buf len (i + 1) (acc + buf ! unat i)"
      using True by (subst mkcrc_loop.simps) simp
    also have "\<dots> = (acc + buf ! unat i) + sum_list (drop (unat (i + 1)) (take (unat len) buf))"
      using "1.IH" [OF True le "1.prems"(2)] .
    finally show ?thesis by (simp add: u d add.assoc)
  next
    case False
    with "1.prems" have "i = len" by simp
    then show ?thesis by (subst mkcrc_loop.simps) simp
  qed
qed

text \<open>In the ring of bytes the checksum is the negated sum.\<close>

lemma mkcrc_neg_sum:
  "unat len \<le> length buf \<Longrightarrow> mkcrc buf len = - sum_list (take (unat len) buf)"
  by (simp add: mkcrc_def mkcrc_loop_sum)

lemma uint_sum_list: "uint (sum_list (xs :: byte list)) = sum_list (map uint xs) mod 256"
  by (induction xs) (simp_all add: uint_word_ariths mod_simps)

lemma mkcrc_formula:
  assumes a: "unat len \<le> length buf"
  shows "uint (mkcrc buf len)
         = (0xFF - (sum_list (map uint (take (unat len) buf)) mod 256 - 1)) mod 256"
proof -
  define t where "t = sum_list (map uint (take (unat len) buf))"
  have "uint (mkcrc buf len) = (- (t mod 256)) mod 256"
    using a by (simp add: mkcrc_neg_sum uint_word_ariths uint_sum_list t_def)
  also have "\<dots> = (256 + - (t mod 256)) mod 256"
    by (simp only: mod_add_self1)
  also have "256 + - (t mod 256) = 0xFF - (t mod 256 - 1)"
    by simp
  finally show ?thesis by (simp add: t_def)
qed

lemma tx_frame_crc: "tx_frame ecmd ! 4 = mkcrc (take 4 (tx_frame ecmd)) 4"
  by (simp add: tx_frame_def mkcrc_neg_sum Let_def)

lemma mkcrc_append: "unat len \<le> length xs \<Longrightarrow> mkcrc (xs @ ys) len = mkcrc xs len"
  by (simp add: mkcrc_neg_sum)

lemma byte_and_ff: "x AND 0xFF = x" for x :: byte
proof -
  have "(0xFF :: byte) = - 1" by simp
  then show ?thesis by (simp only: word_bw_comms word_and_max and.right_neutral)
qed

lemma sendFrame_eq:
  assumes "unat len \<le> length payload"
  shows "sendFrame out type payload len
         = Returns (out @ [0xAA, 0x55, type, len] @ take (unat len) payload
                    @ [mkcrc [0xAA, 0x55, type, len] 4 + mkcrc payload len])"
  using assms by (auto simp add: sendFrame_def Let_def SOF1_def SOF2_def byte_and_ff)

text \<open>
  The checksum is additive: the sum of the two checksums that \<open>sendFrame\<close> computes
  is also the checksum of header and payload taken together.
\<close>

lemma sendFrame_crc_concat:
  assumes "unat len \<le> length payload"
  shows "mkcrc [a, b, c, d] 4 + mkcrc payload len
         = - sum_list ([a, b, c, d] @ take (unat len) payload)"
  using assms by (simp add: mkcrc_neg_sum)

text \<open>The negated byte sum, read as a number, is the value of the checksum formula.\<close>

lemma uint_neg_sum_list:
  "uint (- sum_list (xs :: byte list)) = (0xFF - (sum_list (map uint xs) mod 256 - 1)) mod 256"
proof -
  define t where "t = sum_list (map uint xs)"
  have "uint (- sum_list xs) = (- (t mod 256)) mod 256"
    by (simp add: uint_word_ariths uint_sum_list t_def)
  also have "\<dots> = (256 + - (t mod 256)) mod 256"
    by (simp only: mod_add_self1)
  also have "256 + - (t mod 256) = 0xFF - (t mod 256 - 1)"
    by simp
  finally show ?thesis by (simp add: t_def)
qed

text \<open>
  One call of \<open>mkcrc\<close> over the header followed by the payload, when the count
  \<open>4 + len\<close> fits the 8-bit parameter.
\<close>

lemma mkcrc_concat:
  assumes "unat len \<le> length payload" and "4 + unat len \<le> 255"
  shows "mkcrc ([a, b, c, d] @ take (unat len) payload) (4 + len)
         = - sum_list ([a, b, c, d] @ take (unat len) payload)"
proof -
  have "unat (4 + len) = 4 + unat len"
    using assms(2) by (simp add: unat_word_ariths)
  then show ?thesis using assms(1) by (simp add: mkcrc_neg_sum)
qed

section \<open>The transaction\<close>

text \<open>
  The receive loop returns only with the full count: it has consumed a stretch of polls
  that delivered exactly the missing bytes, and stored them in order.
\<close>

lemma rx_loop_Returns:
  "rx_loop expected i buf evs = Returns (i', buf', evs') \<Longrightarrow> i \<le> expected \<Longrightarrow>
   i' = expected \<and> expected \<le> max i (length buf) \<and>
   (\<exists>pre. evs = pre @ evs' \<and> length (bytes_of pre) = expected - i
      \<and> buf' = take i buf @ bytes_of pre @ drop expected buf)"
proof (induction evs arbitrary: i buf)
  case Nil
  then show ?case
    by (subst (asm) rx_loop.simps) (auto split: if_splits)
next
  case (Cons e evs)
  show ?case
  proof (cases "i < expected")
    case False
    with Cons.prems have "i = expected" by simp
    with Cons.prems(1) show ?thesis
      by (subst (asm) rx_loop.simps) auto
  next
    case lt: True
    show ?thesis
    proof (cases e)
      case None
      with lt Cons.prems(1) have "rx_loop expected i buf evs = Returns (i', buf', evs')"
        by (subst (asm) rx_loop.simps) simp
      from Cons.IH [OF this Cons.prems(2)] obtain pre where
        "i' = expected" "expected \<le> max i (length buf)" "evs = pre @ evs'"
        "length (bytes_of pre) = expected - i" "buf' = take i buf @ bytes_of pre @ drop expected buf"
        by blast
      then have "e # evs = (None # pre) @ evs' \<and> length (bytes_of (None # pre)) = expected - i
          \<and> buf' = take i buf @ bytes_of (None # pre) @ drop expected buf"
        using None by simp
      with \<open>i' = expected\<close> \<open>expected \<le> max i (length buf)\<close> show ?thesis by blast
    next
      case (Some b)
      with lt Cons.prems(1) have ib: "i < length buf"
        and r: "rx_loop expected (i + 1) (buf[i := b]) evs = Returns (i', buf', evs')"
        by (subst (asm) rx_loop.simps, simp split: if_splits)+
      from lt have "i + 1 \<le> expected" by simp
      from Cons.IH [OF r this] obtain pre where p:
        "i' = expected" "expected \<le> max (i + 1) (length buf)" "evs = pre @ evs'"
        "length (bytes_of pre) = expected - (i + 1)"
        "buf' = take (i + 1) (buf[i := b]) @ bytes_of pre @ drop expected (buf[i := b])"
        by auto
      have t: "take (Suc i) (buf[i := b]) = take i buf @ [b]"
        using ib by (simp add: take_Suc_conv_app_nth)
      have d: "drop expected (buf[i := b]) = drop expected buf"
        using lt by simp
      have "e # evs = (Some b # pre) @ evs' \<and> length (bytes_of (Some b # pre)) = expected - i
          \<and> buf' = take i buf @ bytes_of (Some b # pre) @ drop expected buf"
        using p Some lt t by (simp add: d)
      moreover have "expected \<le> max i (length buf)" using p(2) ib lt by simp
      ultimately show ?thesis using p(1) by blast
    qed
  qed
qed


lemma sendcmd_Returns:
  assumes "sendcmd ecmd s = Returns (ok, ecmd', s')" and n_def: "n = unat (rxlen ecmd) + 3"
  shows "\<exists>pre.
    rx (dlc s) = pre @ rx (dlc s') \<and>
    length (bytes_of pre) = n \<and>
    n \<le> 20 \<and>
    dlcData s' = bytes_of pre @ replicate (20 - n) 0 \<and>
    tx (dlc s') = tx (dlc s) @ tx_frame ecmd \<and>
    ecmd' = ecmd\<lparr>crc := tx_frame ecmd ! 4\<rparr> \<and>
    ok = (mkcrc (dlcData s') (of_nat (n - 1)) = dlcData s' ! (n - 1)) \<and>
    (if ok then s' = s\<lparr>dlcData := dlcData s', dlc := dlc s'\<rparr>
     else errLen s < ErrLen \<and>
          s' = s\<lparr>dlcData := dlcData s', dlc := dlc s',
                 Errs := (Errs s)[errLen s := ChecksumErr], errLen := errLen s + 1\<rparr>)"
proof -
  define s1 where "s1 = s\<lparr>dlcData := replicate DataLen 0,
                          dlc := (dlc s)\<lparr>tx := tx (dlc s) @ tx_frame ecmd\<rparr>\<rparr>"
  obtain i buf evs where loop: "rx_loop n 0 (replicate 20 0) (rx (dlc s)) = Returns (i, buf, evs)"
    using assms
    by (cases "rx_loop n 0 (replicate 20 0) (rx (dlc s))")
       (auto simp: sendcmd_def Let_def n_def MSG_OFFSET_def DataLen_def)
  from rx_loop_Returns [OF loop] obtain pre where pre:
    "i = n" "n \<le> 20" "rx (dlc s) = pre @ evs" "length (bytes_of pre) = n"
    "buf = bytes_of pre @ replicate (20 - n) 0"
    by auto
  define s2 where "s2 = s1\<lparr>dlcData := buf, dlc := (dlc s1)\<lparr>rx := evs\<rparr>\<rparr>"
  have body: "sendcmd ecmd s =
      (if mkcrc buf (of_nat (n - 1)) \<noteq> buf ! (n - 1)
       then obind (push_err ChecksumErr s2) (\<lambda>s. Returns (False, ecmd\<lparr>crc := tx_frame ecmd ! 4\<rparr>, s))
       else Returns (True, ecmd\<lparr>crc := tx_frame ecmd ! 4\<rparr>, s2))"
    using loop pre(1)
    by (simp add: sendcmd_def Let_def n_def [symmetric] MSG_OFFSET_def DataLen_def s2_def s1_def)
  show ?thesis
  proof (cases "mkcrc buf (of_nat (n - 1)) \<noteq> buf ! (n - 1)")
    case True
    with body assms have "obind (push_err ChecksumErr s2)
        (\<lambda>s. Returns (False, ecmd\<lparr>crc := tx_frame ecmd ! 4\<rparr>, s)) = Returns (ok, ecmd', s')"
      by simp
    then have "errLen s2 < ErrLen" and "\<not> ok" and "ecmd' = ecmd\<lparr>crc := tx_frame ecmd ! 4\<rparr>"
      and "s' = s2\<lparr>Errs := (Errs s2)[errLen s2 := ChecksumErr], errLen := errLen s2 + 1\<rparr>"
      by (auto simp: push_err_def split: if_splits)
    with True pre show ?thesis
      by (intro exI [of _ pre]) (simp add: s2_def s1_def)
  next
    case False
    with body assms have "ok" and "ecmd' = ecmd\<lparr>crc := tx_frame ecmd ! 4\<rparr>" and "s' = s2"
      by auto
    with False pre show ?thesis
      by (intro exI [of _ pre]) (simp add: s2_def s1_def)
  qed
qed

text \<open>With fewer bytes than awaited on the line, and room for them, the loop never returns.\<close>

lemma rx_loop_Hangs:
  "length (bytes_of evs) < expected - i \<Longrightarrow> i + length (bytes_of evs) \<le> length buf \<Longrightarrow>
   rx_loop expected i buf evs = Hangs"
proof (induction evs arbitrary: i buf)
  case Nil
  then show ?case by (subst rx_loop.simps) simp
next
  case (Cons e evs)
  show ?case
  proof (cases e)
    case None
    with Cons show ?thesis by (subst rx_loop.simps) simp
  next
    case (Some b)
    with Cons.prems have "rx_loop expected (i + 1) (buf[i := b]) evs = Hangs"
      by (intro Cons.IH) simp_all
    with Some Cons.prems show ?thesis by (subst rx_loop.simps) simp
  qed
qed

lemma sendcmd_Hangs:
  assumes "length (bytes_of (rx (dlc s))) < unat (rxlen ecmd) + 3"
    and "length (bytes_of (rx (dlc s))) \<le> 20"
  shows "sendcmd ecmd s = Hangs"
proof -
  have "rx_loop (unat (rxlen ecmd) + 3) 0 (replicate 20 0) (rx (dlc s)) = Hangs"
    using assms by (intro rx_loop_Hangs) simp_all
  then show ?thesis
    by (simp add: sendcmd_def Let_def MSG_OFFSET_def DataLen_def)
qed

text \<open>With enough bytes coming, room for them and room in the log, the transaction returns.\<close>

lemma rx_loop_total:
  "n - i \<le> length (bytes_of evs) \<Longrightarrow> n \<le> length buf \<Longrightarrow> i \<le> n \<Longrightarrow>
   \<exists>buf' evs'. rx_loop n i buf evs = Returns (n, buf', evs')"
proof (induction evs arbitrary: i buf)
  case Nil
  then have "i = n" by simp
  then show ?case by (subst rx_loop.simps) simp
next
  case (Cons e evs)
  show ?case
  proof (cases "i < n")
    case False
    with Cons.prems have "i = n" by simp
    then show ?thesis by (subst rx_loop.simps) simp
  next
    case lt: True
    show ?thesis
    proof (cases e)
      case None
      with Cons.prems have "\<exists>buf' evs'. rx_loop n i buf evs = Returns (n, buf', evs')"
        by (intro Cons.IH) simp_all
      with None lt show ?thesis by (subst rx_loop.simps) simp
    next
      case (Some b)
      with Cons.prems lt
      have "\<exists>buf' evs'. rx_loop n (i + 1) (buf[i := b]) evs = Returns (n, buf', evs')"
        by (intro Cons.IH) simp_all
      with Some lt Cons.prems show ?thesis by (subst rx_loop.simps) simp
    qed
  qed
qed

lemma sendcmd_total:
  assumes "unat (rxlen c) + 3 \<le> 20"
    and "unat (rxlen c) + 3 \<le> length (bytes_of (rx (dlc s)))"
    and "errLen s < ErrLen"
  shows "\<exists>ok c' s'. sendcmd c s = Returns (ok, c', s')"
proof -
  from rx_loop_total [of "unat (rxlen c) + 3" 0 "rx (dlc s)" "replicate 20 0"] assms
  obtain buf' evs' where
    "rx_loop (unat (rxlen c) + 3) 0 (replicate 20 0) (rx (dlc s))
     = Returns (unat (rxlen c) + 3, buf', evs')"
    by auto
  then show ?thesis
    using assms(3)
    by (auto simp add: sendcmd_def Let_def MSG_OFFSET_def DataLen_def push_err_def)
qed

section \<open>Claims\<close>

text \<open>
  C1.  The receive loop of \<open>sendcmd\<close> leaves only through the byte count: when it
  returns, \<open>i < expected\<close> is false and a stretch of polls delivering exactly
  \<open>expected\<close> bytes has been consumed.  So whenever \<open>sendcmd\<close> returns, it has
  read exactly \<open>rxlen + 3\<close> bytes, the timeout counter \<open>dlctmo\<close> is unchanged and
  the error log is either unchanged (success) or has received \<open>ChecksumErr\<close>, never
  \<open>TimeoutErr\<close>.  When fewer than \<open>rxlen + 3\<close> bytes ever arrive, \<open>sendcmd\<close>
  does not return at all; it polls for ever.  This holds for every command.
\<close>

theorem sendcmd_never_times_out:
  "(rx_loop expected 0 buf evs = Returns (i, buf', evs') \<longrightarrow>
      \<not> i < expected \<and> (\<exists>pre. evs = pre @ evs' \<and> length (bytes_of pre) = expected))
   \<and> (sendcmd ecmd s = Returns (ok, ecmd', s') \<longrightarrow>
        dlctmo s' = dlctmo s
        \<and> (\<exists>pre. rx (dlc s) = pre @ rx (dlc s')
                  \<and> length (bytes_of pre) = unat (rxlen ecmd) + 3)
        \<and> (if ok then Errs s' = Errs s \<and> errLen s' = errLen s
            else Errs s' = (Errs s)[errLen s := ChecksumErr] \<and> errLen s' = errLen s + 1))
   \<and> (length (bytes_of (rx (dlc s))) < unat (rxlen ecmd) + 3 \<longrightarrow>
        (\<forall>r. sendcmd ecmd s \<noteq> Returns r)
        \<and> (length (bytes_of (rx (dlc s))) \<le> 20 \<longrightarrow> sendcmd ecmd s = Hangs))"
proof (intro conjI impI)
  assume "rx_loop expected 0 buf evs = Returns (i, buf', evs')"
  from rx_loop_Returns [OF this] show "\<not> i < expected" by simp
next
  assume "rx_loop expected 0 buf evs = Returns (i, buf', evs')"
  from rx_loop_Returns [OF this]
  show "\<exists>pre. evs = pre @ evs' \<and> length (bytes_of pre) = expected" by auto
next
  assume r: "sendcmd ecmd s = Returns (ok, ecmd', s')"
  from sendcmd_Returns [OF r refl] obtain pre where pre:
    "rx (dlc s) = pre @ rx (dlc s')" "length (bytes_of pre) = unat (rxlen ecmd) + 3"
    and upd: "if ok then s' = s\<lparr>dlcData := dlcData s', dlc := dlc s'\<rparr>
     else errLen s < ErrLen \<and>
          s' = s\<lparr>dlcData := dlcData s', dlc := dlc s',
                 Errs := (Errs s)[errLen s := ChecksumErr], errLen := errLen s + 1\<rparr>"
    by blast
  from pre show "\<exists>pre. rx (dlc s) = pre @ rx (dlc s')
                  \<and> length (bytes_of pre) = unat (rxlen ecmd) + 3" by blast
  show "dlctmo s' = dlctmo s"
  proof (cases ok)
    case True
    with upd have "s' = s\<lparr>dlcData := dlcData s', dlc := dlc s'\<rparr>" by simp
    then have "dlctmo s' = dlctmo (s\<lparr>dlcData := dlcData s', dlc := dlc s'\<rparr>)" by simp
    then show ?thesis by simp
  next
    case False
    with upd have "s' = s\<lparr>dlcData := dlcData s', dlc := dlc s',
                 Errs := (Errs s)[errLen s := ChecksumErr], errLen := errLen s + 1\<rparr>" by simp
    then have "dlctmo s' = dlctmo (s\<lparr>dlcData := dlcData s', dlc := dlc s',
                 Errs := (Errs s)[errLen s := ChecksumErr], errLen := errLen s + 1\<rparr>)" by simp
    then show ?thesis by simp
  qed
  show "if ok then Errs s' = Errs s \<and> errLen s' = errLen s
            else Errs s' = (Errs s)[errLen s := ChecksumErr] \<and> errLen s' = errLen s + 1"
  proof (cases ok)
    case True
    with upd have e: "s' = s\<lparr>dlcData := dlcData s', dlc := dlc s'\<rparr>" by simp
    have "Errs s' = Errs s" by (subst e) simp
    moreover have "errLen s' = errLen s" by (subst e) simp
    ultimately show ?thesis using True by simp
  next
    case False
    with upd have e: "s' = s\<lparr>dlcData := dlcData s', dlc := dlc s',
                 Errs := (Errs s)[errLen s := ChecksumErr], errLen := errLen s + 1\<rparr>" by simp
    have "Errs s' = (Errs s)[errLen s := ChecksumErr]" by (subst e) simp
    moreover have "errLen s' = errLen s + 1" by (subst e) simp
    ultimately show ?thesis using False by simp
  qed
next
  assume few: "length (bytes_of (rx (dlc s))) < unat (rxlen ecmd) + 3"
  show "\<forall>r. sendcmd ecmd s \<noteq> Returns r"
  proof (intro allI notI)
    fix r assume "sendcmd ecmd s = Returns r"
    then obtain ok c t where "sendcmd ecmd s = Returns (ok, c, t)" by (cases r) auto
    from sendcmd_Returns [OF this refl] obtain pre where
      "rx (dlc s) = pre @ rx (dlc t)" "length (bytes_of pre) = unat (rxlen ecmd) + 3"
      by blast
    moreover have "length (bytes_of (xs @ ys)) = length (bytes_of xs) + length (bytes_of ys)" for xs ys
      by (induction xs rule: bytes_of.induct) simp_all
    ultimately have "unat (rxlen ecmd) + 3 \<le> length (bytes_of (rx (dlc s)))" by simp
    with few show False by simp
  qed
next
  assume "length (bytes_of (rx (dlc s))) < unat (rxlen ecmd) + 3"
    and "length (bytes_of (rx (dlc s))) \<le> 20"
  then show "sendcmd ecmd s = Hangs" by (rule sendcmd_Hangs)
qed

theorem sendcmd_never_times_out_witness:
  "rx_loop 3 0 (replicate 20 0) [Some 0, None, Some 0, Some 1]
     = Returns (3, [0, 0, 1] @ replicate 17 0, [])
   \<and> \<not> (3::nat) < 3
   \<and> sendcmd \<lparr>cmd = 0x21, txlen = 4, reg = 1, rxlen = 0, crc = 0\<rparr>
        (ecu_on [Some 0, None, Some 0, Some 1])
      = Returns (False, \<lparr>cmd = 0x21, txlen = 4, reg = 1, rxlen = 0, crc = 0xDA\<rparr>,
          (ecu_on [])\<lparr>dlc := \<lparr>rx = [], tx = [0x21, 4, 1, 0, 0xDA]\<rparr>,
                       dlcData := [0, 0, 1] @ replicate 17 0,
                       Errs := ChecksumErr # replicate 13 DTCErr, errLen := 1\<rparr>)
   \<and> dlctmo ((ecu_on [])\<lparr>dlc := \<lparr>rx = [], tx = [0x21, 4, 1, 0, 0xDA]\<rparr>,
                       dlcData := [0, 0, 1] @ replicate 17 0,
                       Errs := ChecksumErr # replicate 13 DTCErr, errLen := 1\<rparr>) = 0
   \<and> sendcmd \<lparr>cmd = 0x21, txlen = 4, reg = 1, rxlen = 0, crc = 0\<rparr>
        (ecu_on [Some 0, None, Some 0]) = Hangs"
proof -
  have l: "rx_loop 3 0 (replicate 20 0) [Some 0, None, Some 0, Some 1]
     = Returns (3, [0, 0, 1] @ replicate 17 0, [])"
    by code_simp
  have r: "sendcmd \<lparr>cmd = 0x21, txlen = 4, reg = 1, rxlen = 0, crc = 0\<rparr>
        (ecu_on [Some 0, None, Some 0, Some 1])
      = Returns (False, \<lparr>cmd = 0x21, txlen = 4, reg = 1, rxlen = 0, crc = 0xDA\<rparr>,
          (ecu_on [])\<lparr>dlc := \<lparr>rx = [], tx = [0x21, 4, 1, 0, 0xDA]\<rparr>,
                       dlcData := [0, 0, 1] @ replicate 17 0,
                       Errs := ChecksumErr # replicate 13 DTCErr, errLen := 1\<rparr>)"
    by code_simp
  have few: "length (bytes_of (rx (dlc (ecu_on [Some 0, None, Some 0]))))
             < unat (rxlen \<lparr>cmd = 0x21, txlen = 4, reg = 1, rxlen = 0, crc = 0\<rparr>) + 3"
    by code_simp
  have le: "length (bytes_of (rx (dlc (ecu_on [Some 0, None, Some 0])))) \<le> 20"
    by code_simp
  from sendcmd_never_times_out
         [of 3 "replicate 20 0" "[Some 0, None, Some 0, Some 1]" 3 "[0, 0, 1] @ replicate 17 0" "[]"
             "\<lparr>cmd = 0x21, txlen = 4, reg = 1, rxlen = 0, crc = 0\<rparr>"
             "ecu_on [Some 0, None, Some 0, Some 1]" False
             "\<lparr>cmd = 0x21, txlen = 4, reg = 1, rxlen = 0, crc = 0xDA\<rparr>"
             "(ecu_on [])\<lparr>dlc := \<lparr>rx = [], tx = [0x21, 4, 1, 0, 0xDA]\<rparr>,
                       dlcData := [0, 0, 1] @ replicate 17 0,
                       Errs := ChecksumErr # replicate 13 DTCErr, errLen := 1\<rparr>"] l r
  have a: "\<not> (3::nat) < 3" and b: "dlctmo ((ecu_on [])\<lparr>dlc := \<lparr>rx = [], tx = [0x21, 4, 1, 0, 0xDA]\<rparr>,
                       dlcData := [0, 0, 1] @ replicate 17 0,
                       Errs := ChecksumErr # replicate 13 DTCErr, errLen := 1\<rparr>)
        = dlctmo (ecu_on [Some 0, None, Some 0, Some 1])"
    by blast+
  have b': "dlctmo (ecu_on [Some 0, None, Some 0, Some 1]) = 0" by code_simp
  from sendcmd_never_times_out
         [of 0 "[]" "[]" 0 "[]" "[]" "\<lparr>cmd = 0x21, txlen = 4, reg = 1, rxlen = 0, crc = 0\<rparr>"
             "ecu_on [Some 0, None, Some 0]"] few le
  have c: "sendcmd \<lparr>cmd = 0x21, txlen = 4, reg = 1, rxlen = 0, crc = 0\<rparr>
        (ecu_on [Some 0, None, Some 0]) = Hangs"
    by blast
  from l a r b b' c show ?thesis by (simp only: simp_thms)
qed

text \<open>
  C3.  \<open>mkcrc\<close> is a function of its arguments alone, and over the \<open>len\<close> bytes it
  reads it returns \<open>(0xFF - ((sum of the bytes mod 256) - 1)) mod 256\<close>.  The frame that
  \<open>sendcmd\<close> writes to the line is the four command bytes followed by a fifth byte,
  and the expression written inline for that byte agrees with \<open>mkcrc\<close> over the first
  four, hence with the same formula.
\<close>

theorem mkcrc_formula_and_tx_crc:
  "(unat len \<le> length buf \<longrightarrow>
      uint (mkcrc buf len)
        = (0xFF - (sum_list (map uint (take (unat len) buf)) mod 256 - 1)) mod 256)
   \<and> tx_frame ecmd = [cmd ecmd, txlen ecmd, reg ecmd, rxlen ecmd,
                       mkcrc [cmd ecmd, txlen ecmd, reg ecmd, rxlen ecmd] 4]
   \<and> uint (tx_frame ecmd ! 4)
        = (0xFF - ((uint (cmd ecmd) + uint (txlen ecmd) + uint (reg ecmd) + uint (rxlen ecmd))
                    mod 256 - 1)) mod 256
   \<and> (sendcmd ecmd s = Returns (ok, ecmd', s') \<longrightarrow>
        tx (dlc s') = tx (dlc s) @ tx_frame ecmd \<and> crc ecmd' = tx_frame ecmd ! 4)"
proof (intro conjI impI)
  assume "unat len \<le> length buf"
  then show "uint (mkcrc buf len)
        = (0xFF - (sum_list (map uint (take (unat len) buf)) mod 256 - 1)) mod 256"
    by (rule mkcrc_formula)
next
  have "tx_frame ecmd = take 4 (tx_frame ecmd) @ [tx_frame ecmd ! 4]"
    by (simp add: tx_frame_def Let_def)
  also have "tx_frame ecmd ! 4 = mkcrc (take 4 (tx_frame ecmd)) 4"
    by (rule tx_frame_crc)
  finally show "tx_frame ecmd = [cmd ecmd, txlen ecmd, reg ecmd, rxlen ecmd,
                       mkcrc [cmd ecmd, txlen ecmd, reg ecmd, rxlen ecmd] 4]"
    by (simp add: tx_frame_def Let_def)
next
  have "uint (tx_frame ecmd ! 4) = uint (mkcrc [cmd ecmd, txlen ecmd, reg ecmd, rxlen ecmd] 4)"
    by (simp add: tx_frame_crc) (simp add: tx_frame_def Let_def)
  also have "\<dots> = (0xFF - (sum_list (map uint (take (unat (4 :: byte))
                      [cmd ecmd, txlen ecmd, reg ecmd, rxlen ecmd])) mod 256 - 1)) mod 256"
    by (rule mkcrc_formula) simp
  finally show "uint (tx_frame ecmd ! 4)
        = (0xFF - ((uint (cmd ecmd) + uint (txlen ecmd) + uint (reg ecmd) + uint (rxlen ecmd))
                    mod 256 - 1)) mod 256"
    by (simp add: add.assoc)
next
  assume r: "sendcmd ecmd s = Returns (ok, ecmd', s')"
  from sendcmd_Returns [OF r refl] obtain pre where
    "tx (dlc s') = tx (dlc s) @ tx_frame ecmd" "ecmd' = ecmd\<lparr>crc := tx_frame ecmd ! 4\<rparr>"
    by blast
  then show "tx (dlc s') = tx (dlc s) @ tx_frame ecmd" and "crc ecmd' = tx_frame ecmd ! 4"
    by simp_all
qed

theorem mkcrc_formula_and_tx_crc_witness:
  "unat (4 :: byte) \<le> length [0x20, 0x05, 0x00, 0x10 :: byte]
   \<and> uint (mkcrc [0x20, 0x05, 0x00, 0x10] 4) = 203
   \<and> sendcmd \<lparr>cmd = 0x21, txlen = 4, reg = 1, rxlen = 0, crc = 0\<rparr>
        (ecu_on [Some 0, Some 0, Some 0])
      = Returns (True, \<lparr>cmd = 0x21, txlen = 4, reg = 1, rxlen = 0, crc = 0xDA\<rparr>,
          (ecu_on [])\<lparr>dlc := \<lparr>rx = [], tx = [0x21, 4, 1, 0, 0xDA]\<rparr>\<rparr>)
   \<and> tx_frame \<lparr>cmd = 0x21, txlen = 4, reg = 1, rxlen = 0, crc = 0\<rparr> = [0x21, 4, 1, 0, 0xDA]"
proof -
  have h: "unat (4 :: byte) \<le> length [0x20, 0x05, 0x00, 0x10 :: byte]" by simp
  have r: "sendcmd \<lparr>cmd = 0x21, txlen = 4, reg = 1, rxlen = 0, crc = 0\<rparr>
        (ecu_on [Some 0, Some 0, Some 0])
      = Returns (True, \<lparr>cmd = 0x21, txlen = 4, reg = 1, rxlen = 0, crc = 0xDA\<rparr>,
          (ecu_on [])\<lparr>dlc := \<lparr>rx = [], tx = [0x21, 4, 1, 0, 0xDA]\<rparr>\<rparr>)"
    by code_simp
  from mkcrc_formula_and_tx_crc [of 4 "[0x20, 0x05, 0x00, 0x10]"
      "\<lparr>cmd = 0x21, txlen = 4, reg = 1, rxlen = 0, crc = 0\<rparr>"
      "ecu_on [Some 0, Some 0, Some 0]" True
      "\<lparr>cmd = 0x21, txlen = 4, reg = 1, rxlen = 0, crc = 0xDA\<rparr>"
      "(ecu_on [])\<lparr>dlc := \<lparr>rx = [], tx = [0x21, 4, 1, 0, 0xDA]\<rparr>\<rparr>"] h r
  have f: "uint (mkcrc [0x20, 0x05, 0x00, 0x10] 4)
        = (0xFF - (sum_list (map uint (take (unat (4 :: byte)) [0x20, 0x05, 0x00, 0x10 :: byte]))
                    mod 256 - 1)) mod 256"
    and t: "tx (dlc ((ecu_on [])\<lparr>dlc := \<lparr>rx = [], tx = [0x21, 4, 1, 0, 0xDA]\<rparr>\<rparr>))
            = tx (dlc (ecu_on [Some 0, Some 0, Some 0]))
              @ tx_frame \<lparr>cmd = 0x21, txlen = 4, reg = 1, rxlen = 0, crc = 0\<rparr>"
    by blast+
  from f have f': "uint (mkcrc [0x20, 0x05, 0x00, 0x10] 4) = 203" by simp
  from t have t': "tx_frame \<lparr>cmd = 0x21, txlen = 4, reg = 1, rxlen = 0, crc = 0\<rparr>
                   = [0x21, 4, 1, 0, 0xDA]"
    by (simp add: ecu_on_def ECUData_new_def)
  from h f' r t' show ?thesis by (simp only: simp_thms)
qed

text \<open>
  C10, as amended.  A frame written by \<open>sendFrame\<close> is \<open>0xAA, 0x55, type, length\<close>,
  then the \<open>length\<close> payload bytes, then one checksum byte.  That byte is the checksum
  of the four header bytes plus the checksum of the payload bytes, modulo 256, each
  computed by its own call of \<open>mkcrc\<close>.  The checksum being the negated byte sum, the
  same byte is the value of the checksum formula over the header followed by the payload,
  and it equals one call of \<open>mkcrc\<close> over that concatenation whenever the
  \<open>4 + length\<close> bytes fit the 8-bit count of \<open>mkcrc\<close>.
\<close>

theorem sendFrame_layout:
  "unat len \<le> length payload \<Longrightarrow>
   (\<exists>c. sendFrame out type payload len
          = Returns (out @ [0xAA, 0x55, type, len] @ take (unat len) payload @ [c])
        \<and> uint c = (uint (mkcrc [0xAA, 0x55, type, len] 4) + uint (mkcrc payload len)) mod 256
        \<and> uint c = (0xFF - (sum_list (map uint ([0xAA, 0x55, type, len]
                                                   @ take (unat len) payload)) mod 256 - 1))
                      mod 256
        \<and> (4 + unat len \<le> 255 \<longrightarrow>
             c = mkcrc ([0xAA, 0x55, type, len] @ take (unat len) payload) (4 + len)))"
proof -
  assume a: "unat len \<le> length payload"
  define c where "c = mkcrc [0xAA, 0x55, type, len] 4 + mkcrc payload len"
  have s: "sendFrame out type payload len
          = Returns (out @ [0xAA, 0x55, type, len] @ take (unat len) payload @ [c])"
    unfolding c_def by (rule sendFrame_eq [OF a])
  have u: "uint c = (uint (mkcrc [0xAA, 0x55, type, len] 4) + uint (mkcrc payload len)) mod 256"
    by (simp add: c_def uint_word_ariths)
  have n: "c = - sum_list ([0xAA, 0x55, type, len] @ take (unat len) payload)"
    unfolding c_def by (rule sendFrame_crc_concat [OF a])
  have f: "uint c = (0xFF - (sum_list (map uint ([0xAA, 0x55, type, len]
                                                   @ take (unat len) payload)) mod 256 - 1))
                      mod 256"
    unfolding n by (rule uint_neg_sum_list)
  have m: "4 + unat len \<le> 255 \<longrightarrow>
             c = mkcrc ([0xAA, 0x55, type, len] @ take (unat len) payload) (4 + len)"
    using mkcrc_concat [OF a, of "0xAA" "0x55" type len] n by simp
  from s u f m show ?thesis by blast
qed

theorem sendFrame_layout_witness:
  "unat (1 :: byte) \<le> length [1 :: byte]
   \<and> sendFrame [] 0x84 [1] 1 = Returns [0xAA, 0x55, 0x84, 1, 1, 0x7B]
   \<and> (uint (mkcrc [0xAA, 0x55, 0x84, 1] 4) + uint (mkcrc [1] 1)) mod 256 = 0x7B
   \<and> (0xFF - (sum_list (map uint [0xAA, 0x55, 0x84, 1, 1 :: byte]) mod 256 - 1)) mod 256 = 0x7B
   \<and> mkcrc [0xAA, 0x55, 0x84, 1, 1] 5 = 0x7B"
proof -
  have h: "unat (1 :: byte) \<le> length [1 :: byte]" by simp
  from sendFrame_layout [OF h, of "[]" "0x84"] obtain c where
    cc: "sendFrame [] 0x84 [1] 1 = Returns ([] @ [0xAA, 0x55, 0x84, 1] @ take (unat (1 :: byte)) [1] @ [c])
      \<and> uint c = (uint (mkcrc [0xAA, 0x55, 0x84, 1] 4) + uint (mkcrc [1] 1)) mod 256
      \<and> uint c = (0xFF - (sum_list (map uint ([0xAA, 0x55, 0x84, 1 :: byte]
                                              @ take (unat (1 :: byte)) [1])) mod 256 - 1)) mod 256
      \<and> (4 + unat (1 :: byte) \<le> 255 \<longrightarrow>
         c = mkcrc ([0xAA, 0x55, 0x84, 1] @ take (unat (1 :: byte)) [1]) (4 + 1))" ..
  note c = cc [THEN conjunct1] cc [THEN conjunct2, THEN conjunct1]
    cc [THEN conjunct2, THEN conjunct2, THEN conjunct1]
    cc [THEN conjunct2, THEN conjunct2, THEN conjunct2]
  have v: "sendFrame [] 0x84 [1] 1 = Returns [0xAA, 0x55, 0x84, 1, 1, 0x7B]" by code_simp
  with c(1) have e: "c = 0x7B" by simp
  from c(2) e have a: "(uint (mkcrc [0xAA, 0x55, 0x84, 1] 4) + uint (mkcrc [1] 1)) mod 256 = 0x7B"
    by simp
  from c(3) e have b: "(0xFF - (sum_list (map uint [0xAA, 0x55, 0x84, 1, 1 :: byte]) mod 256 - 1))
                       mod 256 = 0x7B"
    by simp
  from c(4) e have d: "mkcrc [0xAA, 0x55, 0x84, 1, 1] 5 = 0x7B" by simp
  from h v a b d show ?thesis by (simp only: simp_thms)
qed

text \<open>
  C10, as stated, says that the trailing byte is not one checksum over the concatenated
  header and payload.  For the error frame with the payload \<open>01\<close> the byte written is
  \<open>0x7B\<close>, and \<open>0x7B\<close> is the checksum of the five bytes \<open>AA 55 84 01 01\<close>.
\<close>

theorem sendFrame_crc_is_one_checksum:
  "sendFrame [] 0x84 [1] 1 = Returns [0xAA, 0x55, 0x84, 1, 1, 0x7B]
   \<and> mkcrc [0xAA, 0x55, 0x84, 1, 1] 5 = 0x7B
   \<and> last [0xAA, 0x55, 0x84, 1, 1, 0x7B] = mkcrc (butlast [0xAA, 0x55, 0x84, 1, 1, 0x7B]) 5"
  by code_simp

lemma sendcmd_verdict:
  "sendcmd ecmd s = Returns (ok, ecmd', s') \<Longrightarrow>
   (\<exists>pre resp.
      resp = bytes_of pre \<and> rx (dlc s) = pre @ rx (dlc s')
      \<and> length resp = unat (rxlen ecmd) + 3
      \<and> take (length resp) (dlcData s') = resp
      \<and> ok = (mkcrc (butlast resp) (of_nat (length resp - 1)) = last resp)
      \<and> ok = (uint (last resp)
                = (0xFF - (sum_list (map uint (butlast resp)) mod 256 - 1)) mod 256)
      \<and> (if ok then s' = s\<lparr>dlcData := dlcData s', dlc := dlc s'\<rparr>
          else errLen s < ErrLen
               \<and> s' = s\<lparr>dlcData := dlcData s', dlc := dlc s',
                        Errs := (Errs s)[errLen s := ChecksumErr], errLen := errLen s + 1\<rparr>))"
proof -
  assume r: "sendcmd ecmd s = Returns (ok, ecmd', s')"
  define n where "n = unat (rxlen ecmd) + 3"
  from sendcmd_Returns [OF r n_def] obtain pre where pre:
    "rx (dlc s) = pre @ rx (dlc s')" "length (bytes_of pre) = n" "n \<le> 20"
    "dlcData s' = bytes_of pre @ replicate (20 - n) 0"
    "ok = (mkcrc (dlcData s') (of_nat (n - 1)) = dlcData s' ! (n - 1))"
    and upd: "if ok then s' = s\<lparr>dlcData := dlcData s', dlc := dlc s'\<rparr>
          else errLen s < ErrLen
               \<and> s' = s\<lparr>dlcData := dlcData s', dlc := dlc s',
                        Errs := (Errs s)[errLen s := ChecksumErr], errLen := errLen s + 1\<rparr>"
    by blast
  define resp where "resp = bytes_of pre"
  have len: "length resp = n" by (simp add: resp_def pre)
  have n0: "0 < n" by (simp add: n_def)
  then have ne: "resp \<noteq> []" using len by auto
  have split: "resp = butlast resp @ [last resp]" using ne by simp
  have u: "unat (of_nat (n - 1) :: byte) = n - 1"
    using pre(3) by (simp add: unat_of_nat)
  have lb: "length (butlast resp) = n - 1" by (simp add: len)
  have "mkcrc (dlcData s') (of_nat (n - 1))
        = mkcrc (butlast resp @ ([last resp] @ replicate (20 - n) 0)) (of_nat (n - 1))"
    using split pre(4) resp_def by (metis append.assoc)
  also have "\<dots> = mkcrc (butlast resp) (of_nat (n - 1))"
    by (rule mkcrc_append) (simp only: u lb order_refl)
  finally have m: "mkcrc (dlcData s') (of_nat (n - 1)) = mkcrc (butlast resp) (of_nat (n - 1))" .
  have l: "dlcData s' ! (n - 1) = last resp"
    using ne len n0 by (simp add: pre(4) resp_def [symmetric] nth_append last_conv_nth)
  have ok1: "ok = (mkcrc (butlast resp) (of_nat (length resp - 1)) = last resp)"
    using pre(5) m l len by simp
  have "uint (mkcrc (butlast resp) (of_nat (n - 1)))
        = (0xFF - (sum_list (map uint (take (unat (of_nat (n - 1) :: byte)) (butlast resp))) mod 256 - 1)) mod 256"
    by (rule mkcrc_formula) (simp only: u lb order_refl)
  also have "take (unat (of_nat (n - 1) :: byte)) (butlast resp) = butlast resp"
    unfolding u using lb by simp
  finally have f: "uint (mkcrc (butlast resp) (of_nat (n - 1)))
        = (0xFF - (sum_list (map uint (butlast resp)) mod 256 - 1)) mod 256" .
  have ok2: "ok = (uint (last resp)
                = (0xFF - (sum_list (map uint (butlast resp)) mod 256 - 1)) mod 256)"
    using ok1 f len by (metis word_uint_eq_iff)
  have tk: "take (length resp) (dlcData s') = resp"
    by (simp add: pre(4) resp_def)
  from resp_def pre(1) len tk ok1 ok2 upd show ?thesis
    unfolding n_def by blast
qed


text \<open>
  With \<open>rxlen + 3\<close> bytes coming on the line, room for them in \<open>dlcData\<close>
  and room in the log, \<open>sendcmd\<close> returns.  Whenever it returns, it has collected
  \<open>rxlen + 3\<close> response bytes \<open>resp\<close> at the start of \<open>dlcData\<close>, and it
  returns success exactly when the checksum of all of them but the last, by the formula
  of \<open>mkcrc\<close>, equals the last one.  On a mismatch it stores \<open>ChecksumErr\<close> at
  \<open>Errs[errLen]\<close>, advances \<open>errLen\<close> and returns failure; on success nothing but
  the response buffer and the line has changed.
\<close>

lemma sendcmd_verdict_in_capacity:
  "(unat (rxlen ecmd) + 3 \<le> 20
      \<and> unat (rxlen ecmd) + 3 \<le> length (bytes_of (rx (dlc s))) \<and> errLen s < ErrLen \<longrightarrow>
    (\<exists>k e t. sendcmd ecmd s = Returns (k, e, t)))
   \<and> (sendcmd ecmd s = Returns (ok, ecmd', s') \<longrightarrow>
   (\<exists>pre resp.
      resp = bytes_of pre \<and> rx (dlc s) = pre @ rx (dlc s')
      \<and> length resp = unat (rxlen ecmd) + 3
      \<and> take (length resp) (dlcData s') = resp
      \<and> ok = (mkcrc (butlast resp) (of_nat (length resp - 1)) = last resp)
      \<and> ok = (uint (last resp)
                = (0xFF - (sum_list (map uint (butlast resp)) mod 256 - 1)) mod 256)
      \<and> (if ok then s' = s\<lparr>dlcData := dlcData s', dlc := dlc s'\<rparr>
          else errLen s < ErrLen
               \<and> s' = s\<lparr>dlcData := dlcData s', dlc := dlc s',
                        Errs := (Errs s)[errLen s := ChecksumErr], errLen := errLen s + 1\<rparr>)))"
  using sendcmd_total [of ecmd s] sendcmd_verdict [of ecmd s ok ecmd' s'] by blast

lemma sendcmd_verdict_in_capacity_example:
  "unat (rxlen \<lparr>cmd = 0x21, txlen = 4, reg = 1, rxlen = 0, crc = 0\<rparr>) + 3
     \<le> length (bytes_of (rx (dlc (ecu_on [Some 0, None, Some 0, Some 1]))))
   \<and> (\<exists>k e t. sendcmd \<lparr>cmd = 0x21, txlen = 4, reg = 1, rxlen = 0, crc = 0\<rparr>
                   (ecu_on [Some 0, None, Some 0, Some 1]) = Returns (k, e, t))
   \<and> sendcmd \<lparr>cmd = 0x21, txlen = 4, reg = 1, rxlen = 0, crc = 0\<rparr>
        (ecu_on [Some 0, None, Some 0, Some 1])
      = Returns (False, \<lparr>cmd = 0x21, txlen = 4, reg = 1, rxlen = 0, crc = 0xDA\<rparr>,
          (ecu_on [])\<lparr>dlc := \<lparr>rx = [], tx = [0x21, 4, 1, 0, 0xDA]\<rparr>,
                       dlcData := [0, 0, 1] @ replicate 17 0,
                       Errs := ChecksumErr # replicate 13 DTCErr, errLen := 1\<rparr>)
   \<and> (\<exists>pre. [Some 0, None, Some 0, Some 1] = pre @ [] \<and> length (bytes_of pre) = 3
          \<and> False = (mkcrc (butlast (bytes_of pre)) 2 = last (bytes_of pre)))
   \<and> sendcmd \<lparr>cmd = 0x21, txlen = 4, reg = 1, rxlen = 0, crc = 0\<rparr>
        (ecu_on [Some 7, Some 0xF0, None, Some 9, Some 5])
      = Returns (True, \<lparr>cmd = 0x21, txlen = 4, reg = 1, rxlen = 0, crc = 0xDA\<rparr>,
          (ecu_on [Some 5])\<lparr>dlc := \<lparr>rx = [Some 5], tx = [0x21, 4, 1, 0, 0xDA]\<rparr>,
                       dlcData := [7, 0xF0, 9] @ replicate 17 0\<rparr>)
   \<and> (\<exists>pre. [Some 7, Some 0xF0, None, Some 9, Some 5] = pre @ [Some 5]
          \<and> length (bytes_of pre) = 3
          \<and> True = (mkcrc (butlast (bytes_of pre)) 2 = last (bytes_of pre)))"
proof -
  have bad: "sendcmd \<lparr>cmd = 0x21, txlen = 4, reg = 1, rxlen = 0, crc = 0\<rparr>
        (ecu_on [Some 0, None, Some 0, Some 1])
      = Returns (False, \<lparr>cmd = 0x21, txlen = 4, reg = 1, rxlen = 0, crc = 0xDA\<rparr>,
          (ecu_on [])\<lparr>dlc := \<lparr>rx = [], tx = [0x21, 4, 1, 0, 0xDA]\<rparr>,
                       dlcData := [0, 0, 1] @ replicate 17 0,
                       Errs := ChecksumErr # replicate 13 DTCErr, errLen := 1\<rparr>)"
    by code_simp
  have good: "sendcmd \<lparr>cmd = 0x21, txlen = 4, reg = 1, rxlen = 0, crc = 0\<rparr>
        (ecu_on [Some 7, Some 0xF0, None, Some 9, Some 5])
      = Returns (True, \<lparr>cmd = 0x21, txlen = 4, reg = 1, rxlen = 0, crc = 0xDA\<rparr>,
          (ecu_on [Some 5])\<lparr>dlc := \<lparr>rx = [Some 5], tx = [0x21, 4, 1, 0, 0xDA]\<rparr>,
                       dlcData := [7, 0xF0, 9] @ replicate 17 0\<rparr>)"
    by code_simp
  have p: "unat (rxlen \<lparr>cmd = 0x21, txlen = 4, reg = 1, rxlen = 0, crc = 0\<rparr>) + 3
     \<le> length (bytes_of (rx (dlc (ecu_on [Some 0, None, Some 0, Some 1]))))"
    by (simp add: ecu_on_def ECUData_new_def)
  have q: "errLen (ecu_on [Some 0, None, Some 0, Some 1]) < ErrLen"
    by (simp add: ecu_on_def ECUData_new_def ErrLen_def)
  from sendcmd_verdict_in_capacity [THEN conjunct1, rule_format,
      of "\<lparr>cmd = 0x21, txlen = 4, reg = 1, rxlen = 0, crc = 0\<rparr>"
         "ecu_on [Some 0, None, Some 0, Some 1]"] p q
  have tot: "\<exists>k e t. sendcmd \<lparr>cmd = 0x21, txlen = 4, reg = 1, rxlen = 0, crc = 0\<rparr>
                   (ecu_on [Some 0, None, Some 0, Some 1]) = Returns (k, e, t)"
    by simp
  from sendcmd_verdict_in_capacity [THEN conjunct2, rule_format, OF bad]
  have b: "\<exists>pre. [Some 0, None, Some 0, Some 1] = pre @ [] \<and> length (bytes_of pre) = 3
          \<and> False = (mkcrc (butlast (bytes_of pre)) 2 = last (bytes_of pre))"
    by (simp add: ecu_on_def ECUData_new_def)
  from sendcmd_verdict_in_capacity [THEN conjunct2, rule_format, OF good]
  have g: "\<exists>pre. [Some 7, Some 0xF0, None, Some 9, Some 5] = pre @ [Some 5]
          \<and> length (bytes_of pre) = 3
          \<and> True = (mkcrc (butlast (bytes_of pre)) 2 = last (bytes_of pre))"
    by (simp add: ecu_on_def ECUData_new_def)
  from p tot bad b good g show ?thesis by (simp only: simp_thms)
qed

text \<open>
  C4.  The claim: once \<open>rxlen + 3\<close> response bytes have been collected, a checksum
  mismatch appends \<open>ChecksumErr\<close> to the log and \<open>sendcmd\<close> returns failure.
  The code stores with \<open>Errs[errLen++]\<close> and never compares \<open>errLen\<close> with the
  capacity of \<open>Errs\<close>.  Fourteen reset transactions that fail their checksum lead a
  fresh object to \<open>errLen = 14\<close>.  There, the 19-byte reply \<open>reply_bad\<close> to the
  command for register 0x00 (last byte 1, checksum of the other eighteen 0) makes
  \<open>sendcmd\<close> store at \<open>Errs[14]\<close>, past the end of the array, instead of returning
  failure.  On the same object the reply \<open>reply_row0\<close>, whose last byte is the checksum
  of the others, is accepted.
\<close>

theorem sendcmd_mismatch_with_full_log:
  "((\<lambda>r. obind r (\<lambda>(ok, s). resetEcu s)) ^^ 14)
          (Returns (True, ecu_on (concat (replicate 14 [Some 0, Some 0, Some 1])
                                  @ map Some reply_bad)))
   = Returns (False, ecu_full (map Some reply_bad))
   \<and> mkcrc (butlast reply_bad) 18 = 0 \<and> last reply_bad = 1
   \<and> sendcmd (row_cmd HOBD_OFF_RPM) (ecu_full (map Some reply_bad)) = Undefined ArrayOverrun
   \<and> mkcrc (butlast reply_row0) 18 = 0xB9 \<and> last reply_row0 = 0xB9
   \<and> sendcmd (row_cmd HOBD_OFF_RPM) (ecu_full (map Some reply_row0))
     = Returns (True, (row_cmd HOBD_OFF_RPM)\<lparr>crc := 0xCB\<rparr>,
         (ecu_full [])\<lparr>dlc := \<lparr>rx = [], tx = concat (replicate 14 [0x21, 4, 1, 0, 0xDA])
                                               @ [0x20, 0x05, 0x00, 0x10, 0xCB]\<rparr>,
                        dlcData := reply_row0 @ [0]\<rparr>)"
proof -
  have a: "((\<lambda>r. obind r (\<lambda>(ok, s). resetEcu s)) ^^ 14)
          (Returns (True, ecu_on (concat (replicate 14 [Some 0, Some 0, Some 1])
                                  @ map Some reply_bad)))
     = Returns (False, ecu_full (map Some reply_bad))"
    by code_simp
  have b: "mkcrc (butlast reply_bad) 18 = 0 \<and> last reply_bad = 1"
    by code_simp
  have c: "sendcmd (row_cmd HOBD_OFF_RPM) (ecu_full (map Some reply_bad)) = Undefined ArrayOverrun"
    by code_simp
  have d: "mkcrc (butlast reply_row0) 18 = 0xB9 \<and> last reply_row0 = 0xB9"
    by code_simp
  have e: "sendcmd (row_cmd HOBD_OFF_RPM) (ecu_full (map Some reply_row0))
     = Returns (True, (row_cmd HOBD_OFF_RPM)\<lparr>crc := 0xCB\<rparr>,
         (ecu_full [])\<lparr>dlc := \<lparr>rx = [], tx = concat (replicate 14 [0x21, 4, 1, 0, 0xDA])
                                               @ [0x20, 0x05, 0x00, 0x10, 0xCB]\<rparr>,
                        dlcData := reply_row0 @ [0]\<rparr>)"
    by code_simp
  from a b c d e show ?thesis by (simp only: simp_thms)
qed

text \<open>
  C8.  The claim: every append to the error log keeps the index inside the 14-entry array
  \<open>Errs\<close>.  The code stores with \<open>Errs[errLen++]\<close> and never compares
  \<open>errLen\<close> with the capacity.  On a fresh object, fourteen reset transactions whose
  replies carry a wrong checksum byte fill \<open>Errs[0..13]\<close> and leave \<open>errLen = 14\<close>;
  the fifteenth such transaction stores at \<open>Errs[14]\<close>, past the end of the array.
\<close>

theorem Errs_overrun_after_14_errors:
  "((\<lambda>r. obind r (\<lambda>(ok, s). resetEcu s)) ^^ 14)
          (Returns (True, ecu_on (concat (replicate 15 [Some 0, Some 0, Some 1]))))
   = Returns (False,
       (ecu_on [])\<lparr>dlc := \<lparr>rx = [Some 0, Some 0, Some 1],
                             tx = concat (replicate 14 [0x21, 4, 1, 0, 0xDA])\<rparr>,
                    dlcData := [0, 0, 1] @ replicate 17 0,
                    Errs := replicate 14 ChecksumErr, errLen := 14\<rparr>)
   \<and> resetEcu ((ecu_on [])\<lparr>dlc := \<lparr>rx = [Some 0, Some 0, Some 1],
                             tx = concat (replicate 14 [0x21, 4, 1, 0, 0xDA])\<rparr>,
                    dlcData := [0, 0, 1] @ replicate 17 0,
                    Errs := replicate 14 ChecksumErr, errLen := 14\<rparr>)
     = Undefined ArrayOverrun"
  by code_simp

section \<open>The trouble-code scan on concrete replies\<close>

text \<open>\<open>scanDtc\<close> in two stages: the transaction, then the loop over the 14 bytes.\<close>

lemma scanDtc_staged:
  assumes "sendcmd \<lparr>cmd = HOBD_CMD, txlen = 0x05, reg = 0x40, rxlen = 0x10, crc = 0\<rparr>
             (s\<lparr>dtcLen := 0\<rparr>) = Returns (True, c, t)"
    and "dtc_loop 0 t = u"
  shows "scanDtc s = Returns (True, u)"
  using assms by (simp add: scanDtc_def)

text \<open>
  What one pass of the loop stores: the code of the low nibble wins over that of the high
  nibble, both go to index \<open>i\<close>, only 23 is renumbered, and the counter grows by one
  for each non-zero nibble.
\<close>

lemma dtc_step_stores:
  assumes "i < 14" and "length (dtcErrs s) = 14"
  shows "dtcErrs (dtc_step i s)
         = (if dlcData s ! (i + 2) AND 0xf \<noteq> 0
            then (dtcErrs s)[i := (if i = 11 then 22 else of_nat (i * 2 + 1))]
            else if drop_bit 4 (dlcData s ! (i + 2)) \<noteq> 0
                 then (dtcErrs s)[i := of_nat (i * 2)]
                 else dtcErrs s)"
    and "dtcLen (dtc_step i s)
         = dtcLen s + (if drop_bit 4 (dlcData s ! (i + 2)) \<noteq> 0 then 1 else 0)
                    + (if dlcData s ! (i + 2) AND 0xf \<noteq> 0 then 1 else 0)"
proof -
  have "unat (of_nat (i * 2 + 1) :: byte) = (i * 2 + 1) mod 2 ^ LENGTH(8)"
    by (rule unat_of_nat)
  also have "\<dots> = i * 2 + 1" using assms(1) by simp
  finally have u: "unat (of_nat (i * 2 + 1) :: byte) = i * 2 + 1" .
  have k1: "((of_nat (i * 2 + 1) :: byte) = 23) = (i = 11)"
  proof
    assume "(of_nat (i * 2 + 1) :: byte) = 23"
    then have "unat (of_nat (i * 2 + 1) :: byte) = unat (23 :: byte)" by simp
    with u show "i = 11" by simp
  next
    assume "i = 11"
    then show "(of_nat (i * 2 + 1) :: byte) = 23" by simp
  qed
  have k2: "(of_nat (i * 2 + 1) :: byte) \<noteq> 24"
  proof
    assume "(of_nat (i * 2 + 1) :: byte) = 24"
    then have "unat (of_nat (i * 2 + 1) :: byte) = unat (24 :: byte)" by simp
    with u have "i * 2 + 1 = 24" by simp
    then show False by arith
  qed
  show "dtcErrs (dtc_step i s)
         = (if dlcData s ! (i + 2) AND 0xf \<noteq> 0
            then (dtcErrs s)[i := (if i = 11 then 22 else of_nat (i * 2 + 1))]
            else if drop_bit 4 (dlcData s ! (i + 2)) \<noteq> 0
                 then (dtcErrs s)[i := of_nat (i * 2)]
                 else dtcErrs s)"
    using assms k1 k2 by (simp add: dtc_step_def Let_def)
  show "dtcLen (dtc_step i s)
         = dtcLen s + (if drop_bit 4 (dlcData s ! (i + 2)) \<noteq> 0 then 1 else 0)
                    + (if dlcData s ! (i + 2) AND 0xf \<noteq> 0 then 1 else 0)"
    by (simp add: dtc_step_def Let_def)
qed

text \<open>
  C2.  The claim: a signaled code 24 (high nibble of payload byte 12) is stored as 23.
  The code compares with 24 only inside the branch of the low nibble, where the value is
  odd, so the comparison never holds.  A reply whose only non-zero payload byte is byte 12
  with value \<open>0x10\<close> passes the checksum test and leaves \<open>dtcErrs[12] = 24\<close>.
\<close>

theorem scanDtc_code_24_not_remapped:
  "scanDtc (ecu_on (map Some (replicate 14 0 @ [0x10] @ replicate 3 0 @ [0xF0])))
   = Returns (True,
       (ecu_on [])\<lparr>dlc := \<lparr>rx = [], tx = [0x20, 0x05, 0x40, 0x10, 0x8B]\<rparr>,
                    dlcData := replicate 14 0 @ [0x10] @ replicate 3 0 @ [0xF0, 0],
                    dtcErrs := replicate 12 0 @ [24, 0], dtcLen := 1\<rparr>)"
proof (rule scanDtc_staged)
  show "sendcmd \<lparr>cmd = HOBD_CMD, txlen = 0x05, reg = 0x40, rxlen = 0x10, crc = 0\<rparr>
          ((ecu_on (map Some (replicate 14 0 @ [0x10] @ replicate 3 0 @ [0xF0])))\<lparr>dtcLen := 0\<rparr>)
        = Returns (True, \<lparr>cmd = HOBD_CMD, txlen = 0x05, reg = 0x40, rxlen = 0x10, crc = 0x8B\<rparr>,
            (ecu_on [])\<lparr>dlc := \<lparr>rx = [], tx = [0x20, 0x05, 0x40, 0x10, 0x8B]\<rparr>,
                    dlcData := replicate 14 0 @ [0x10] @ replicate 3 0 @ [0xF0, 0]\<rparr>)"
    by code_simp
  show "dtc_loop 0 ((ecu_on [])\<lparr>dlc := \<lparr>rx = [], tx = [0x20, 0x05, 0x40, 0x10, 0x8B]\<rparr>,
                    dlcData := replicate 14 0 @ [0x10] @ replicate 3 0 @ [0xF0, 0]\<rparr>)
        = (ecu_on [])\<lparr>dlc := \<lparr>rx = [], tx = [0x20, 0x05, 0x40, 0x10, 0x8B]\<rparr>,
                    dlcData := replicate 14 0 @ [0x10] @ replicate 3 0 @ [0xF0, 0],
                    dtcErrs := replicate 12 0 @ [24, 0], dtcLen := 1\<rparr>"
    by code_simp
qed

text \<open>
  C5.  The claim: after a successful scan \<open>dtcErrs[0 .. dtcLen - 1]\<close> is the sequence of
  signaled codes, both codes of a byte with two non-zero nibbles included.  The code
  stores every code of byte \<open>i\<close> at \<open>dtcErrs[i]\<close> while \<open>dtcLen\<close> counts the
  nibbles.  A reply whose only non-zero payload byte is byte 0 with value \<open>0x11\<close>
  signals the codes 0 and 1; afterwards \<open>dtcLen = 2\<close>, \<open>dtcErrs[0] = 1\<close> (code 0
  is overwritten) and \<open>dtcErrs[1]\<close> still holds its old content 0.
\<close>

theorem scanDtc_list_not_compact:
  "scanDtc (ecu_on (map Some ([0, 0, 0x11] @ replicate 15 0 @ [0xEF])))
   = Returns (True,
       (ecu_on [])\<lparr>dlc := \<lparr>rx = [], tx = [0x20, 0x05, 0x40, 0x10, 0x8B]\<rparr>,
                    dlcData := [0, 0, 0x11] @ replicate 15 0 @ [0xEF, 0],
                    dtcErrs := [1] @ replicate 13 0, dtcLen := 2\<rparr>)"
proof (rule scanDtc_staged)
  show "sendcmd \<lparr>cmd = HOBD_CMD, txlen = 0x05, reg = 0x40, rxlen = 0x10, crc = 0\<rparr>
          ((ecu_on (map Some ([0, 0, 0x11] @ replicate 15 0 @ [0xEF])))\<lparr>dtcLen := 0\<rparr>)
        = Returns (True, \<lparr>cmd = HOBD_CMD, txlen = 0x05, reg = 0x40, rxlen = 0x10, crc = 0x8B\<rparr>,
            (ecu_on [])\<lparr>dlc := \<lparr>rx = [], tx = [0x20, 0x05, 0x40, 0x10, 0x8B]\<rparr>,
                    dlcData := [0, 0, 0x11] @ replicate 15 0 @ [0xEF, 0]\<rparr>)"
    by code_simp
  show "dtc_loop 0 ((ecu_on [])\<lparr>dlc := \<lparr>rx = [], tx = [0x20, 0x05, 0x40, 0x10, 0x8B]\<rparr>,
                    dlcData := [0, 0, 0x11] @ replicate 15 0 @ [0xEF, 0]\<rparr>)
        = (ecu_on [])\<lparr>dlc := \<lparr>rx = [], tx = [0x20, 0x05, 0x40, 0x10, 0x8B]\<rparr>,
                    dlcData := [0, 0, 0x11] @ replicate 15 0 @ [0xEF, 0],
                    dtcErrs := [1] @ replicate 13 0, dtcLen := 2\<rparr>"
    by code_simp
qed

section \<open>Rounding\<close>

lemma rne_bounds: "\<lfloor>x\<rfloor> \<le> rne x \<and> rne x \<le> \<lceil>x\<rceil>"
proof -
  have "rne x = \<lfloor>x\<rfloor> \<or> (rne x = \<lfloor>x\<rfloor> + 1 \<and> x \<noteq> of_int \<lfloor>x\<rfloor>)"
    by (auto simp: rne_def Let_def)
  moreover have "x \<noteq> of_int \<lfloor>x\<rfloor> \<Longrightarrow> \<lceil>x\<rceil> = \<lfloor>x\<rfloor> + 1"
    by (metis ceiling_altdef of_int_floor_cancel)
  moreover have "\<lfloor>x\<rfloor> \<le> \<lceil>x\<rceil>" by (rule floor_le_ceiling)
  ultimately show ?thesis by auto
qed

lemma rne_of_int [simp]: "rne (of_int k) = k"
  by (simp add: rne_def)

lemma bitlen_bounds_rat:
  assumes "0 < a"
  shows "2 powi (bitlen a - 1) \<le> (of_int a :: rat)" and "(of_int a :: rat) < 2 powi (bitlen a)"
proof -
  from bitlen_bounds [OF assms]
  have lo: "2 ^ nat (bitlen a - 1) \<le> a" and hi: "a < 2 ^ nat (bitlen a)" by simp_all
  have pos: "0 < bitlen a"
    using assms bitlen_eq_zero_iff [of a] bitlen_nonneg [of a] by linarith
  from lo have "(of_int (2 ^ nat (bitlen a - 1)) :: rat) \<le> of_int a"
    by (simp only: of_int_le_iff)
  then show "2 powi (bitlen a - 1) \<le> (of_int a :: rat)"
    using pos by (simp add: power_int_def)
  from hi have "(of_int a :: rat) < of_int (2 ^ nat (bitlen a))"
    by (simp only: of_int_less_iff)
  then show "(of_int a :: rat) < 2 powi (bitlen a)"
    using pos by (simp add: power_int_def)
qed

lemma ilog2_bounds:
  assumes "0 < x"
  shows "2 powi (ilog2 x) \<le> x \<and> x < 2 powi (ilog2 x + 1)"
proof -
  obtain a b where q: "quotient_of x = (a, b)" by (cases "quotient_of x")
  then have b: "0 < b" by (rule quotient_of_denom_pos)
  from q have x: "x = of_int a / of_int b" by (rule quotient_of_div)
  with assms b have a: "0 < a" by (simp add: zero_less_divide_iff)
  define k where "k = bitlen a - bitlen b"
  note A = bitlen_bounds_rat [OF a] and B = bitlen_bounds_rat [OF b]
  have bpos: "(0 :: rat) < of_int b" using b by simp
  have p: "(0 :: rat) < 2 powi n" for n by simp
  have "x < 2 powi (bitlen a) / 2 powi (bitlen b - 1)"
    unfolding x using A(2) B(1) bpos p [of "bitlen b - 1"]
    by (intro frac_less) (simp_all add: a less_imp_le)
  also have "\<dots> = 2 powi (k + 1)"
    by (simp add: k_def power_int_diff [symmetric] algebra_simps)
  finally have hi: "x < 2 powi (k + 1)" .
  have "2 powi (bitlen a - 1) / 2 powi (bitlen b) \<le> x"
    unfolding x using A(1) B(2) bpos p [of "bitlen a - 1"]
    by (intro frac_le) (simp_all add: less_imp_le a)
  moreover have "2 powi (bitlen a - 1) / 2 powi (bitlen b) = (2 :: rat) powi (k - 1)"
    by (simp add: k_def power_int_diff [symmetric] algebra_simps)
  ultimately have lo: "2 powi (k - 1) \<le> x" by simp
  have il: "ilog2 x = (if 2 powi k \<le> x then k else k - 1)"
    by (simp add: ilog2_def q k_def Let_def)
  show ?thesis
  proof (cases "2 powi k \<le> x")
    case True
    with il hi show ?thesis by simp
  next
    case False
    with il lo show ?thesis by simp
  qed
qed


lemma ilog2_less:
  assumes "0 < x" and "x < 2 powi n"
  shows "ilog2 x < n"
proof (rule ccontr)
  assume "\<not> ilog2 x < n"
  then have "(2 :: rat) powi n \<le> 2 powi (ilog2 x)"
    by (intro power_int_increasing) simp_all
  with ilog2_bounds [OF assms(1)] assms(2) show False by simp
qed

lemma ilog2_ge:
  assumes "0 < x" and "2 powi n \<le> x"
  shows "n \<le> ilog2 x"
proof (rule ccontr)
  assume "\<not> n \<le> ilog2 x"
  then have "(2 :: rat) powi (ilog2 x + 1) \<le> 2 powi n"
    by (intro power_int_increasing) simp_all
  with ilog2_bounds [OF assms(1)] assms(2) show False by simp
qed

text \<open>A value on the grid of its own binade is kept by rounding.\<close>

lemma round_fl_on_grid:
  assumes "x \<noteq> 0" and "x / 2 powi (max (ilog2 \<bar>x\<bar>) emin - int p + 1) = of_int k"
  shows "round_fl p emin x = x"
proof -
  define u :: rat where "u = 2 powi (max (ilog2 \<bar>x\<bar>) emin - int p + 1)"
  have u: "u \<noteq> 0" by (simp add: u_def)
  have "round_fl p emin x = of_int (rne (x / u)) * u"
    using assms(1) by (simp add: round_fl_def Let_def u_def)
  also have xk: "x / u = of_int k" using assms(2) by (simp add: u_def)
  also have "of_int (rne (of_int k)) * u = x"
    using xk u by (simp add: field_simps)
  finally show ?thesis .
qed

lemma f32_of_int:
  assumes "0 \<le> n" and "n < 2 ^ 24"
  shows "f32 (of_int n) = of_int n"
proof (cases "n = 0")
  case True
  then show ?thesis by (simp add: f32_def round_fl_def)
next
  case False
  with assms have n: "1 \<le> n" by simp
  define x :: rat where "x = of_int n"
  have x: "0 < x" "1 \<le> x" "x < 2 powi 24" using n assms(2) 
    by (simp_all add: x_def)
  define e where "e = ilog2 x"
  have e0: "0 \<le> e" unfolding e_def using x by (intro ilog2_ge) simp_all
  have e1: "e < 24" unfolding e_def using x by (intro ilog2_less) simp_all
  have m: "max (ilog2 \<bar>x\<bar>) (- 126) - int 24 + 1 = e - 23"
    using e0 e1 x(1) by (simp add: e_def)
  have pw: "(2 :: rat) powi (e - 23) = inverse (2 ^ nat (23 - e))"
  proof (cases "e = 23")
    case True
    then show ?thesis by simp
  next
    case False
    with e1 have "e - 23 < 0" by simp
    then have "(2 :: rat) powi (e - 23) = inverse 2 ^ nat (- (e - 23))"
      by (simp add: power_int_def)
    then show ?thesis by (simp add: power_one_over inverse_eq_divide)
  qed
  have g: "x / 2 powi (max (ilog2 \<bar>x\<bar>) (- 126) - int 24 + 1) = of_int (n * 2 ^ nat (23 - e))"
    unfolding m pw by (simp add: x_def divide_inverse)
  have "round_fl 24 (- 126) x = x"
    by (rule round_fl_on_grid [OF _ g]) (use x in simp)
  then show ?thesis by (simp add: f32_def x_def)
qed


lemma rpm_quotient:
  assumes d: "1 \<le> d" "d \<le> 65536"
  shows "trunc (f32 (1875000 / of_int d)) = 1875000 div d"
proof -
  define q :: rat where "q = 1875000 / of_int d"
  define n :: int where "n = 1875000 div d"
  define r :: int where "r = 1875000 mod d"
  have dpos: "(0 :: rat) < of_int d" using d by simp
  have dp: "0 < d" using d by simp
  have "0 \<le> r" "r < d" using dp by (simp_all add: r_def)
  then have r: "0 \<le> r" "r + 1 \<le> d" by simp_all
  have n0: "0 \<le> n" using d by (simp add: n_def pos_imp_zdiv_nonneg_iff)
  have "(1875000 :: int) = n * d + r" by (simp add: n_def r_def)
  then have "(1875000 :: rat) = of_int n * of_int d + of_int r"
    by (metis of_int_add of_int_mult of_int_numeral)
  then have decomp: "q = of_int n + of_int r / of_int d"
    using dpos by (simp add: q_def field_simps)
  have qlo: "of_int n \<le> q" using r(1) dpos by (simp add: decomp)
  have "of_int r / of_int d + 1 / of_int d = (of_int (r + 1) :: rat) / of_int d"
    by (simp add: add_divide_distrib)
  also have "\<dots> \<le> 1" using r(2) dpos by simp
  finally have qhi: "q + 1 / of_int d \<le> of_int n + 1" by (simp add: decomp)
  have "(of_int d :: rat) \<le> 65536" using d(2) by (metis of_int_le_iff of_int_numeral)
  then have q1: "1 \<le> q" using dpos by (simp add: q_def field_simps)
  have "(1 :: rat) \<le> of_int d" using d(1) by simp
  then have q2: "q \<le> 1875000" using dpos by (simp add: q_def field_simps)
  have qpos: "0 < q" using q1 by simp
  define e where "e = ilog2 q"
  have e0: "0 \<le> e" unfolding e_def using q1 qpos by (intro ilog2_ge) simp_all
  have e1: "e < 23" unfolding e_def using q2 qpos by (intro ilog2_less) simp_all
  have m: "max (ilog2 q) (- 126) = e"
    using e0 by (simp add: e_def)
  define U :: int where "U = 2 ^ nat (23 - e)"
  have Upos: "0 < U" by (simp add: U_def)
  have UposR: "(0 :: rat) < of_int U" using Upos by simp
  have "e - 23 < 0" using e1 by simp
  then have "(2 :: rat) powi (e - 23) = inverse 2 ^ nat (- (e - 23))"
    by (simp add: power_int_def)
  then have pw: "(2 :: rat) powi (e - 23) = inverse (of_int U)"
    by (simp add: U_def power_one_over inverse_eq_divide)
  have fq: "f32 q = of_int (rne (q * of_int U)) / of_int U"
    using qpos by (simp add: f32_def round_fl_def Let_def m pw divide_inverse)
  have "(2 :: rat) powi e * of_int U = 2 powi e * 2 powi (23 - e)"
    using e1 by (simp add: U_def power_int_def)
  also have "\<dots> = 2 powi 23"
    by (simp add: power_int_add [symmetric])
  finally have eU: "(2 :: rat) powi e * of_int U = 8388608" by simp
  have "2 powi e \<le> q" unfolding e_def using ilog2_bounds [OF qpos] by simp
  then have "2 powi e * of_int d \<le> (1875000 :: rat)"
    using dpos by (simp add: q_def field_simps)
  also have "\<dots> \<le> 2 powi e * of_int U" by (simp add: eU)
  finally have dU: "(of_int d :: rat) \<le> of_int U" by simp
  define z where "z = q * of_int U"
  have "of_int (n * U) \<le> z" using qlo UposR by (simp add: z_def)
  then have "n * U \<le> \<lfloor>z\<rfloor>" by (simp only: le_floor_iff)
  with rne_bounds [of z] have lo: "n * U \<le> rne z" by linarith
  have "1 / of_int U \<le> (1 :: rat) / of_int d"
    using dU dpos by (simp add: frac_le)
  with qhi have "q + 1 / of_int U \<le> of_int n + 1" by linarith
  then have "(q + 1 / of_int U) * of_int U \<le> (of_int n + 1) * of_int U"
    using UposR by (simp only: mult_le_cancel_right_pos)
  then have "z \<le> of_int ((n + 1) * U - 1)"
    using UposR by (simp add: z_def algebra_simps)
  then have "\<lceil>z\<rceil> \<le> (n + 1) * U - 1" by (simp only: ceiling_le_iff)
  with rne_bounds [of z] have hi: "rne z < (n + 1) * U" by linarith
  have flo: "of_int n \<le> f32 q"
  proof -
    from lo have "(of_int (n * U) :: rat) \<le> of_int (rne z)" by (simp only: of_int_le_iff)
    then show ?thesis using UposR by (simp add: fq z_def field_simps)
  qed
  have fhi: "f32 q < of_int n + 1"
  proof -
    from hi have "(of_int (rne z) :: rat) < of_int ((n + 1) * U)" by (simp only: of_int_less_iff)
    then show ?thesis using UposR by (simp add: fq z_def field_simps)
  qed
  have "0 \<le> f32 q" using flo n0 by (meson of_int_0_le_iff order_trans)
  then have "trunc (f32 q) = \<lfloor>f32 q\<rfloor>" by (simp add: trunc_def)
  also have "\<dots> = n" using flo fhi by (intro floor_unique) simp_all
  finally show ?thesis by (simp add: q_def n_def)
qed

lemma u16_of_bytes:
  fixes a b :: byte
  shows "uint (push_bit 8 (ucast a :: 16 word) OR ucast b) = 256 * uint a + uint b"
proof -
  have disj: "push_bit 8 (ucast a :: 16 word) AND ucast b = 0"
    by (rule bit_eqI) (auto simp: bit_simps dest: bit_imp_le_length)
  then have e: "push_bit 8 (ucast a :: 16 word) OR ucast b = push_bit 8 (ucast a) + ucast b"
    by (simp add: disjunctive_add_eq_or)
  have u: "uint (ucast a :: 16 word) = uint a" "uint (ucast b :: 16 word) = uint b"
    by (simp_all add: uint_up_ucast is_up)
  have bd: "uint a < 256" "uint b < 256" "0 \<le> uint a" "0 \<le> uint b"
    using uint_bounded [of a] uint_bounded [of b] by simp_all
  have "uint (push_bit 8 (ucast a :: 16 word) + ucast b) = (256 * uint a + uint b) mod 65536"
    by (simp add: push_bit_eq_mult uint_word_ariths u mod_simps mult.commute)
  also have "\<dots> = 256 * uint a + uint b" using bd by simp
  finally show ?thesis by (simp only: e)
qed

lemma rx_u16_big_endian:
  "uint (rx_u16 buf off) = 256 * uint (buf ! off) + uint (buf ! (off + 1))"
  unfolding rx_u16_def by (rule u16_of_bytes)

lemma rne_err: "\<bar>of_int (rne x) - x\<bar> \<le> 1 / 2"
proof -
  define d where "d = x - of_int \<lfloor>x\<rfloor>"
  have d: "0 \<le> d" "d < 1" by (simp_all add: d_def) linarith
  have x: "x = of_int \<lfloor>x\<rfloor> + d" by (simp add: d_def)
  consider "d < 1 / 2" | "1 / 2 < d" | "d = 1 / 2" by linarith
  then show ?thesis
  proof cases
    case 1
    then have "rne x = \<lfloor>x\<rfloor>" by (simp add: rne_def Let_def d_def)
    then show ?thesis using 1 d by (simp add: d_def)
  next
    case 2
    then have "rne x = \<lfloor>x\<rfloor> + 1" by (simp add: rne_def Let_def d_def)
    then show ?thesis using 2 d by (simp add: d_def)
  next
    case 3
    then have "rne x = \<lfloor>x\<rfloor> \<or> rne x = \<lfloor>x\<rfloor> + 1" by (simp add: rne_def Let_def d_def)
    then show ?thesis using 3 by (auto simp: d_def)
  qed
qed

lemma round_fl_err:
  assumes "\<bar>x\<bar> < 2 powi k" and "emin < k"
  shows "\<bar>round_fl p emin x - x\<bar> \<le> 2 powi (k - int p) / 2"
proof (cases "x = 0")
  case True
  then show ?thesis by (simp add: round_fl_def)
next
  case False
  define e where "e = max (ilog2 \<bar>x\<bar>) emin"
  define u :: rat where "u = 2 powi (e - int p + 1)"
  have upos: "0 < u" by (simp add: u_def)
  have "ilog2 \<bar>x\<bar> < k" using False assms(1) by (intro ilog2_less) simp_all
  with assms(2) have "e - int p + 1 \<le> k - int p" by (simp add: e_def)
  then have ule: "u \<le> 2 powi (k - int p)"
    unfolding u_def by (intro power_int_increasing) simp_all
  have r: "round_fl p emin x = of_int (rne (x / u)) * u"
    using False by (simp add: round_fl_def Let_def e_def u_def)
  have "round_fl p emin x - x = (of_int (rne (x / u)) - x / u) * u"
    using upos by (simp add: r algebra_simps)
  then have "\<bar>round_fl p emin x - x\<bar> = \<bar>of_int (rne (x / u)) - x / u\<bar> * u"
    using upos by (simp add: abs_mult)
  also have "\<dots> \<le> 1 / 2 * u"
    using rne_err [of "x / u"] upos by (intro mult_right_mono) simp_all
  also have "\<dots> \<le> 1 / 2 * 2 powi (k - int p)"
    using ule by simp
  finally show ?thesis by simp
qed

lemma f32_err_256:
  assumes "\<bar>x\<bar> < 256"
  shows "\<bar>f32 x - x\<bar> \<le> 1 / 131072"
proof -
  have "\<bar>x\<bar> < 2 powi 8" using assms by simp
  from round_fl_err [OF this, of "- 126" 24] show ?thesis
    by (simp add: f32_def power_int_minus)
qed


text \<open>The pressure conversion: the rounded result never crosses an integer.\<close>

lemma f32_716: "f32 (716 / 1000) = 12012487 / 16777216"
  by code_simp

lemma conv_kpa_close:
  "\<bar>conv_kpa v - (716 / 1000 * of_int (uint v) - 5)\<bar> \<le> 3 / 131072"
proof -
  define n :: rat where "n = of_int (uint v)"
  have ub: "0 \<le> uint v" "uint v \<le> 255" using uint_bounded [of v] by simp_all
  then have "(of_int 0 :: rat) \<le> of_int (uint v)" "(of_int (uint v) :: rat) \<le> of_int 255"
    by (simp_all only: of_int_le_iff)
  then have nb: "0 \<le> n" "n \<le> 255" by (simp_all add: n_def del: of_int_uint)
  have fn: "f32 (of_int (uint v)) = n"
    unfolding n_def using ub by (intro f32_of_int) simp_all
  have f5: "f32 5 = 5" using f32_of_int [of 5] by simp
  define x1 where "x1 = n * (12012487 / 16777216)"
  define p1 where "p1 = f32 x1"
  have x1b: "0 \<le> x1" "x1 < 256" using nb by (simp_all add: x1_def)
  then have e1: "\<bar>p1 - x1\<bar> \<le> 1 / 131072"
    unfolding p1_def by (intro f32_err_256) simp
  have "\<bar>p1 - 5\<bar> < 256" using e1 x1b by linarith
  then have e2: "\<bar>f32 (p1 - 5) - (p1 - 5)\<bar> \<le> 1 / 131072"
    by (rule f32_err_256)
  have "x1 - 716 / 1000 * n = n * (43 / 2097152000)"
    by (simp add: x1_def algebra_simps)
  then have e3: "\<bar>x1 - 716 / 1000 * n\<bar> \<le> 1 / 131072"
    using nb by simp
  have "conv_kpa v = f32 (p1 - 5)"
    unfolding conv_kpa_def f32_716 fn f5 p1_def x1_def by simp
  then show ?thesis using e1 e2 e3 unfolding n_def [symmetric] by linarith
qed

lemma trunc_close:
  assumes y: "y = of_int m / 250" and m: "m mod 250 \<noteq> 0" and close: "\<bar>r - y\<bar> < 1 / 250"
  shows "trunc r = trunc y"
proof -
  define n where "n = m div 250"
  define k where "k = m mod 250"
  have k: "1 \<le> k" "k \<le> 249" using m by (simp_all add: k_def)
  have "m = n * 250 + k" by (simp add: n_def k_def)
  then have "(of_int m :: rat) = of_int n * 250 + of_int k"
    by (metis of_int_add of_int_mult of_int_numeral)
  then have yk: "y = of_int n + of_int k / 250" by (simp add: y)
  have "(1 :: rat) \<le> of_int k" "(of_int k :: rat) \<le> 249" using k by simp_all
  then have yb: "of_int n + 1 / 250 \<le> y" "y \<le> of_int n + 249 / 250"
    by (simp_all add: yk)
  then have rb: "of_int n < r" "r < of_int n + 1" using close by linarith+
  have fy: "\<lfloor>y\<rfloor> = n" using yb by (intro floor_unique) linarith+
  have fr: "\<lfloor>r\<rfloor> = n" using rb by (intro floor_unique) linarith+
  have cy: "\<lceil>y\<rceil> = n + 1" using yb by (intro ceiling_unique) (simp, linarith)+
  have cr: "\<lceil>r\<rceil> = n + 1" using rb by (intro ceiling_unique) simp_all
  show ?thesis
  proof (cases "0 \<le> n")
    case True
    then have "(0 :: rat) \<le> of_int n" by simp
    with yb rb have "0 \<le> y" "0 \<le> r" by linarith+
    then show ?thesis by (simp add: trunc_def fy fr)
  next
    case False
    then have "n + 1 \<le> 0" by simp
    then have "(of_int n :: rat) + 1 \<le> 0" by (metis of_int_1 of_int_add of_int_le_0_iff)
    with yb rb have "y < 0" "r < 0" by linarith+
    then show ?thesis by (simp add: trunc_def cy cr)
  qed
qed


lemma conv_kpa_0: "trunc (conv_kpa 0) = - 5"
  by code_simp

lemma conv_kpa_250: "trunc (conv_kpa 250) = 174"
  by code_simp

lemma coprime_250_179: "coprime (250 :: int) 179"
  by (simp add: coprime_iff_gcd_eq_1 gcd_non_0_int)

lemma not_multiple_250:
  assumes "0 \<le> u" "u \<le> 255" "u \<noteq> 0" "u \<noteq> 250"
  shows "(179 * u - 1250) mod 250 \<noteq> (0 :: int)"
proof
  assume "(179 * u - 1250) mod 250 = 0"
  then have "250 dvd 179 * u - 1250" by (simp add: dvd_eq_mod_eq_0)
  moreover have "(250 :: int) dvd 1250" by simp
  ultimately have "250 dvd (179 * u - 1250) + 1250" by (rule dvd_add)
  then have "250 dvd u * 179" by (simp add: mult.commute)
  with coprime_250_179 have "250 dvd u" by (simp only: coprime_dvd_mult_left_iff)
  then obtain k where k: "u = 250 * k" by (auto simp: dvd_def)
  with assms have "0 < k" "k < 2" by simp_all
  then have "k = 1" by simp
  with k assms(4) show False by simp
qed

lemma conv_kpa_trunc:
  "trunc (conv_kpa v) = trunc (716 / 1000 * of_int (uint v) - 5)"
proof -
  have ub: "0 \<le> uint v" "uint v \<le> 255" using uint_bounded [of v] by simp_all
  consider "uint v = 0" | "uint v = 250" | "uint v \<noteq> 0" "uint v \<noteq> 250" by blast
  then show ?thesis
  proof cases
    case 1
    then have v: "v = 0" by (simp add: uint_0_iff)
    have "trunc (716 / 1000 * of_int (uint (0 :: byte)) - 5) = - 5"
      by (simp add: trunc_def)
    then show ?thesis unfolding v by (simp only: conv_kpa_0)
  next
    case 2
    then have "word_of_int (uint v) = (word_of_int 250 :: byte)" by simp
    then have v: "v = 250" by simp
    have "trunc (716 / 1000 * of_int (uint (250 :: byte)) - 5) = 174"
      by (simp add: trunc_def)
    then show ?thesis unfolding v by (simp only: conv_kpa_250)
  next
    case 3
    define m where "m = 179 * uint v - 1250"
    have m: "m mod 250 \<noteq> 0"
      unfolding m_def using ub 3 by (intro not_multiple_250)
    have y: "716 / 1000 * of_int (uint v) - 5 = (of_int m :: rat) / 250"
      by (simp add: m_def del: of_int_uint)
    have "\<bar>conv_kpa v - (716 / 1000 * of_int (uint v) - 5)\<bar> < 1 / 250"
      using conv_kpa_close [of v] by linarith
    then show ?thesis
      unfolding y using m by (intro trunc_close [where m = m]) simp_all
  qed
qed

section \<open>What the transaction and the decoders leave alone\<close>

lemma sendcmd_frame:
  assumes "sendcmd c s = Returns (ok, c', s')"
  shows "s' = s\<lparr>dlc := dlc s', dlcData := dlcData s', Errs := Errs s', errLen := errLen s'\<rparr>"
proof -
  from sendcmd_Returns [OF assms refl] have
    upd: "if ok then s' = s\<lparr>dlcData := dlcData s', dlc := dlc s'\<rparr>
          else errLen s < ErrLen
               \<and> s' = s\<lparr>dlcData := dlcData s', dlc := dlc s',
                        Errs := (Errs s)[errLen s := ChecksumErr], errLen := errLen s + 1\<rparr>"
    by blast
  show ?thesis
  proof (cases ok)
    case True
    with upd have e: "s' = s\<lparr>dlcData := dlcData s', dlc := dlc s'\<rparr>" by simp
    have "Errs s' = Errs s" "errLen s' = errLen s" by (subst e, simp)+
    then show ?thesis by (subst e) simp
  next
    case False
    with upd have e: "s' = s\<lparr>dlcData := dlcData s', dlc := dlc s',
                        Errs := (Errs s)[errLen s := ChecksumErr], errLen := errLen s + 1\<rparr>"
      by simp
    have "Errs s' = (Errs s)[errLen s := ChecksumErr]" "errLen s' = errLen s + 1"
      by (subst e, simp)+
    then show ?thesis by (subst e) simp
  qed
qed

lemma sendcmd_keeps:
  assumes "sendcmd c s = Returns (ok, c', s')"
  shows "row0_fields s' = row0_fields s" "row1_fields s' = row1_fields s"
    "row2_fields s' = row2_fields s" "knoc s' = knoc s" "maf s' = maf s"
    "obd_sel s' = obd_sel s"
  by (subst sendcmd_frame [OF assms], simp add: row0_fields_def row1_fields_def row2_fields_def)+

lemma sendcmd_tx:
  assumes "sendcmd c s = Returns (ok, c', s')"
  shows "tx (dlc s') = tx (dlc s) @ tx_frame c"
  using sendcmd_Returns [OF assms refl] by blast

lemma row0_decode_keeps:
  "row1_fields (row0_decode s) = row1_fields s" "row2_fields (row0_decode s) = row2_fields s"
  "knoc (row0_decode s) = knoc s" "maf (row0_decode s) = maf s"
  "dlc (row0_decode s) = dlc s" "obd_sel (row0_decode s) = obd_sel s"
  "errLen (row0_decode s) = errLen s" "dlcData (row0_decode s) = dlcData s"
  by (simp_all add: row0_decode_def Let_def row1_fields_def row2_fields_def)

lemma row1_decode_keeps:
  "row0_fields (row1_decode s) = row0_fields s" "row2_fields (row1_decode s) = row2_fields s"
  "knoc (row1_decode s) = knoc s" "maf (row1_decode s) = maf s"
  "dlc (row1_decode s) = dlc s" "obd_sel (row1_decode s) = obd_sel s"
  "errLen (row1_decode s) = errLen s" "dlcData (row1_decode s) = dlcData s"
  by (simp_all add: row1_decode_def Let_def row0_fields_def row2_fields_def)

lemma row2_decode_keeps:
  "row0_fields (row2_decode s) = row0_fields s" "row1_fields (row2_decode s) = row1_fields s"
  "knoc (row2_decode s) = knoc s" "maf (row2_decode s) = maf s"
  "dlc (row2_decode s) = dlc s" "obd_sel (row2_decode s) = obd_sel s"
  "errLen (row2_decode s) = errLen s" "dlcData (row2_decode s) = dlcData s"
  by (simp_all add: row2_decode_def Let_def row0_fields_def row1_fields_def)

lemma row3_decode_keeps:
  "row0_fields (row3_decode s) = row0_fields s" "row1_fields (row3_decode s) = row1_fields s"
  "row2_fields (row3_decode s) = row2_fields s" "maf (row3_decode s) = maf s"
  "dlc (row3_decode s) = dlc s" "obd_sel (row3_decode s) = obd_sel s"
  "errLen (row3_decode s) = errLen s" "dlcData (row3_decode s) = dlcData s"
  by (simp_all add: row3_decode_def Let_def row0_fields_def row1_fields_def row2_fields_def)

section \<open>When the reply is on the line\<close>

text \<open>A reply that arrives without idle polls in between.\<close>

lemma rx_loop_bytes:
  "i + length xs = n \<Longrightarrow> n \<le> length buf \<Longrightarrow>
   rx_loop n i buf (map Some xs @ rest) = Returns (n, take i buf @ xs @ drop n buf, rest)"
proof (induction xs arbitrary: i buf)
  case Nil
  then show ?case by (subst rx_loop.simps) simp
next
  case (Cons x xs)
  then have lt: "i < n" "i < length buf" by simp_all
  have t: "take (Suc i) (buf[i := x]) = take i buf @ [x]"
    using lt by (simp add: take_Suc_conv_app_nth)
  have "rx_loop n (i + 1) (buf[i := x]) (map Some xs @ rest)
        = Returns (n, take (i + 1) (buf[i := x]) @ xs @ drop n (buf[i := x]), rest)"
    using Cons.prems by (intro Cons.IH) simp_all
  then show ?case using lt t by (subst rx_loop.simps) simp
qed

lemma sendcmd_reply_ok:
  assumes "rx (dlc s) = map Some resp @ rest" and "length resp = unat (rxlen c) + 3"
    and "length resp \<le> 20"
    and "mkcrc resp (of_nat (length resp - 1)) = last resp"
  shows "sendcmd c s = Returns (True, c\<lparr>crc := tx_frame c ! 4\<rparr>,
           s\<lparr>dlc := \<lparr>rx = rest, tx = tx (dlc s) @ tx_frame c\<rparr>,
             dlcData := resp @ replicate (20 - length resp) 0\<rparr>)"
proof -
  have "rx_loop (unat (rxlen c) + 3) 0 (replicate 20 0) (map Some resp @ rest)
        = Returns (unat (rxlen c) + 3,
            take 0 (replicate 20 0) @ resp @ drop (unat (rxlen c) + 3) (replicate 20 0), rest)"
    using assms(2,3) by (intro rx_loop_bytes) simp_all
  moreover have "unat (of_nat (length resp - 1) :: byte) = length resp - 1"
    using assms(3) by (simp add: unat_of_nat)
  moreover have "resp \<noteq> []" using assms(2) by auto
  ultimately show ?thesis
    using assms
    by (simp add: sendcmd_def Let_def MSG_OFFSET_def DataLen_def nth_append
          last_conv_nth mkcrc_append)
qed

lemma sendcmd_reply_bad:
  assumes "rx (dlc s) = map Some resp @ rest" and "length resp = unat (rxlen c) + 3"
    and "length resp \<le> 20"
    and "mkcrc resp (of_nat (length resp - 1)) \<noteq> last resp" and "errLen s < ErrLen"
  shows "sendcmd c s = Returns (False, c\<lparr>crc := tx_frame c ! 4\<rparr>,
           s\<lparr>dlc := \<lparr>rx = rest, tx = tx (dlc s) @ tx_frame c\<rparr>,
             dlcData := resp @ replicate (20 - length resp) 0,
             Errs := (Errs s)[errLen s := ChecksumErr], errLen := errLen s + 1\<rparr>)"
proof -
  have "rx_loop (unat (rxlen c) + 3) 0 (replicate 20 0) (map Some resp @ rest)
        = Returns (unat (rxlen c) + 3,
            take 0 (replicate 20 0) @ resp @ drop (unat (rxlen c) + 3) (replicate 20 0), rest)"
    using assms(2,3) by (intro rx_loop_bytes) simp_all
  moreover have "unat (of_nat (length resp - 1) :: byte) = length resp - 1"
    using assms(3) by (simp add: unat_of_nat)
  moreover have "resp \<noteq> []" using assms(2) by auto
  ultimately show ?thesis
    using assms
    by (simp add: sendcmd_def Let_def MSG_OFFSET_def DataLen_def nth_append
          last_conv_nth mkcrc_append push_err_def)
qed

text \<open>A mismatch when the log is full: the store of \<open>push_err\<close> leaves \<open>Errs\<close>.\<close>

lemma sendcmd_mismatch_no_room:
  assumes "rx (dlc s) = map Some resp @ rest" and "length resp = unat (rxlen c) + 3"
    and "length resp \<le> 20"
    and "mkcrc resp (of_nat (length resp - 1)) \<noteq> last resp" and "\<not> errLen s < ErrLen"
  shows "sendcmd c s = Undefined ArrayOverrun"
proof -
  have "rx_loop (unat (rxlen c) + 3) 0 (replicate 20 0) (map Some resp @ rest)
        = Returns (unat (rxlen c) + 3,
            take 0 (replicate 20 0) @ resp @ drop (unat (rxlen c) + 3) (replicate 20 0), rest)"
    using assms(2,3) by (intro rx_loop_bytes) simp_all
  moreover have "unat (of_nat (length resp - 1) :: byte) = length resp - 1"
    using assms(3) by (simp add: unat_of_nat)
  moreover have "resp \<noteq> []" using assms(2) by auto
  ultimately show ?thesis
    using assms
    by (simp add: sendcmd_def Let_def MSG_OFFSET_def DataLen_def nth_append
          last_conv_nth mkcrc_append push_err_def)
qed

section \<open>Concrete replies\<close>

lemma sendcmd_row_ok:
  assumes "rx (dlc s) = map Some resp @ rest" and "length resp = 19"
    and "mkcrc resp 18 = last resp"
  obtains c' s' where "sendcmd (row_cmd r) s = Returns (True, c', s')"
    and "dlcData s' = resp @ [0]" and "rx (dlc s') = rest" and "errLen s' = errLen s"
proof -
  let ?c = "(row_cmd r)\<lparr>crc := tx_frame (row_cmd r) ! 4\<rparr>"
  let ?s = "s\<lparr>dlc := \<lparr>rx = rest, tx = tx (dlc s) @ tx_frame (row_cmd r)\<rparr>,
             dlcData := resp @ replicate (20 - length resp) 0\<rparr>"
  have "sendcmd (row_cmd r) s = Returns (True, ?c, ?s)"
    using assms by (intro sendcmd_reply_ok) (simp_all add: row_cmd_def)
  then show ?thesis using assms(2) by (intro that [of ?c ?s]) simp_all
qed

lemma sendcmd_row_bad:
  assumes "rx (dlc s) = map Some resp @ rest" and "length resp = 19"
    and "mkcrc resp 18 \<noteq> last resp" and "errLen s < ErrLen"
  obtains c' s' where "sendcmd (row_cmd r) s = Returns (False, c', s')"
proof -
  have "sendcmd (row_cmd r) s = Returns (False, (row_cmd r)\<lparr>crc := tx_frame (row_cmd r) ! 4\<rparr>,
           s\<lparr>dlc := \<lparr>rx = rest, tx = tx (dlc s) @ tx_frame (row_cmd r)\<rparr>,
             dlcData := resp @ replicate (20 - length resp) 0,
             Errs := (Errs s)[errLen s := ChecksumErr], errLen := errLen s + 1\<rparr>)"
    using assms by (intro sendcmd_reply_bad) (simp_all add: row_cmd_def)
  then show ?thesis by (rule that)
qed

lemma row0_decode_reads:
  "dlcData s = dlcData t \<Longrightarrow> obd_sel s = obd_sel t \<Longrightarrow> rpm s = rpm t \<Longrightarrow>
   row0_fields (row0_decode s) = row0_fields (row0_decode t)"
  by (simp add: row0_decode_def Let_def row0_fields_def)

lemma row1_decode_reads:
  "dlcData s = dlcData t \<Longrightarrow> row1_fields (row1_decode s) = row1_fields (row1_decode t)"
  by (simp add: row1_decode_def Let_def row1_fields_def)

lemma row2_decode_reads:
  "dlcData s = dlcData t \<Longrightarrow> row2_fields (row2_decode s) = row2_fields (row2_decode t)"
  by (simp add: row2_decode_def Let_def row2_fields_def)

lemma reply_crcs:
  "mkcrc reply_row0 18 = last reply_row0" "mkcrc reply_row1 18 = last reply_row1"
  "mkcrc reply_row2 18 = last reply_row2" "mkcrc reply_row3 18 = last reply_row3"
  "mkcrc reply_bad 18 \<noteq> last reply_bad"
  by code_simp+

lemma reply_lengths:
  "length reply_row0 = 19" "length reply_row1 = 19" "length reply_row2 = 19"
  "length reply_row3 = 19" "length reply_bad = 19"
  by (simp_all add: reply_row0_def reply_row1_def reply_row2_def reply_row3_def reply_bad_def)

lemma row0_example:
  "row0_fields (row0_decode ((ecu_on [])\<lparr>dlcData := reply_row0 @ [0]\<rparr>))
   = (1875, 50, True, True, False, False, True, True)"
  by code_simp

lemma row1_example:
  "row1_fields (row1_decode ((ecu_on [])\<lparr>dlcData := reply_row1 @ [0]\<rparr>))
   = (- 55, - 63, 30, 95, 10, 1308165 / 524288, 6421901 / 524288, 20, 8808855 / 131072)"
  by code_simp

lemma row2_example:
  "row2_fields (row2_decode ((ecu_on [])\<lparr>dlcData := reply_row2 @ [0]\<rparr>))
   = (1, - 6, 4, 5, 10, 20)"
  by code_simp

lemma ecu_on_simps:
  "rx (dlc (ecu_on evs)) = evs" "tx (dlc (ecu_on evs)) = []" "errLen (ecu_on evs) = 0"
  "obd_sel (ecu_on evs) = 1" "rpm (ecu_on evs) = 0"
  "row0_fields (ecu_on evs) = (0, 0, False, False, False, False, False, False)"
  "row1_fields (ecu_on evs) = (0, 0, 0, 0, 0, 0, 0, 0, 0)"
  "row2_fields (ecu_on evs) = (0, 0, 0, 0, 0, 0)"
  "knoc (ecu_on evs) = 0" "maf (ecu_on evs) = 0"
  by (simp_all add: ecu_on_def ECUData_new_def row0_fields_def row1_fields_def row2_fields_def)

text \<open>The blocks of \<open>readLiveData\<close> on these replies, whatever follows on the line.\<close>

lemma stage_row0:
  obtains c1 s1 where
    "sendcmd (row_cmd HOBD_OFF_RPM) (ecu_on (map Some reply_row0 @ rest)) = Returns (True, c1, s1)"
    and "rx (dlc s1) = rest" and "errLen s1 = 0"
    and "row0_fields (row0_decode s1) = (1875, 50, True, True, False, False, True, True)"
proof -
  let ?S = "ecu_on (map Some reply_row0 @ rest)"
  obtain c1 s1 where a: "sendcmd (row_cmd HOBD_OFF_RPM) ?S = Returns (True, c1, s1)"
    and s1: "dlcData s1 = reply_row0 @ [0]" "rx (dlc s1) = rest" "errLen s1 = errLen ?S"
    by (rule sendcmd_row_ok [of ?S reply_row0 rest HOBD_OFF_RPM])
       (simp_all add: ecu_on_simps reply_lengths reply_crcs)
  have o: "obd_sel s1 = 1" using sendcmd_keeps(6) [OF a] by (simp add: ecu_on_simps)
  have "row0_fields s1 = (0, 0, False, False, False, False, False, False)"
    using sendcmd_keeps(1) [OF a] by (simp add: ecu_on_simps)
  then have rp: "rpm s1 = 0" by (simp add: row0_fields_def)
  have "row0_fields (row0_decode s1)
        = row0_fields (row0_decode ((ecu_on [])\<lparr>dlcData := reply_row0 @ [0]\<rparr>))"
    by (rule row0_decode_reads) (simp_all add: s1 o rp ecu_on_simps)
  then have "row0_fields (row0_decode s1) = (1875, 50, True, True, False, False, True, True)"
    by (simp only: row0_example)
  with a s1 show ?thesis by (intro that [of c1 s1]) (simp_all add: ecu_on_simps)
qed

lemma stage_row1:
  assumes "rx (dlc s) = map Some reply_row1 @ rest"
  obtains c2 s2 where
    "sendcmd (row_cmd HOBD_OFF_ECT) s = Returns (True, c2, s2)"
    and "rx (dlc s2) = rest" and "errLen s2 = errLen s"
    and "row1_fields (row1_decode s2)
         = (- 55, - 63, 30, 95, 10, 1308165 / 524288, 6421901 / 524288, 20, 8808855 / 131072)"
proof -
  obtain c2 s2 where a: "sendcmd (row_cmd HOBD_OFF_ECT) s = Returns (True, c2, s2)"
    and s2: "dlcData s2 = reply_row1 @ [0]" "rx (dlc s2) = rest" "errLen s2 = errLen s"
    by (rule sendcmd_row_ok [of s reply_row1 rest HOBD_OFF_ECT])
       (simp_all add: assms reply_lengths reply_crcs)
  have "row1_fields (row1_decode s2)
        = row1_fields (row1_decode ((ecu_on [])\<lparr>dlcData := reply_row1 @ [0]\<rparr>))"
    by (rule row1_decode_reads) (simp add: s2)
  then have "row1_fields (row1_decode s2)
         = (- 55, - 63, 30, 95, 10, 1308165 / 524288, 6421901 / 524288, 20, 8808855 / 131072)"
    by (simp only: row1_example)
  with a s2 show ?thesis by (intro that [of c2 s2])
qed

lemma stage_row2:
  assumes "rx (dlc s) = map Some reply_row2 @ rest"
  obtains c3 s3 where
    "sendcmd (row_cmd 0x20) s = Returns (True, c3, s3)"
    and "rx (dlc s3) = rest" and "errLen s3 = errLen s"
    and "row2_fields (row2_decode s3) = (1, - 6, 4, 5, 10, 20)"
proof -
  obtain c3 s3 where a: "sendcmd (row_cmd 0x20) s = Returns (True, c3, s3)"
    and s3: "dlcData s3 = reply_row2 @ [0]" "rx (dlc s3) = rest" "errLen s3 = errLen s"
    by (rule sendcmd_row_ok [of s reply_row2 rest "0x20"])
       (simp_all add: assms reply_lengths reply_crcs)
  have "row2_fields (row2_decode s3)
        = row2_fields (row2_decode ((ecu_on [])\<lparr>dlcData := reply_row2 @ [0]\<rparr>))"
    by (rule row2_decode_reads) (simp add: s3)
  then have "row2_fields (row2_decode s3) = (1, - 6, 4, 5, 10, 20)"
    by (simp only: row2_example)
  with a s3 show ?thesis by (intro that [of c3 s3])
qed

lemma stage_bad:
  assumes "rx (dlc s) = map Some reply_bad" and "errLen s = 0"
  obtains c s' where "sendcmd (row_cmd r) s = Returns (False, c, s')"
  by (rule sendcmd_row_bad [of s reply_bad "[]" r])
     (simp_all add: assms reply_lengths reply_crcs ErrLen_def)

section \<open>The blocks of readLiveData in sequence\<close>

lemma readLiveData_rows:
  "readLiveData s =
     obind (sendcmd (row_cmd HOBD_OFF_RPM) s) (\<lambda>(ok, c, s).
       if \<not> ok then Returns (False, s) else let s = row0_decode s in readRows1 s)"
  by (simp add: readLiveData_def readRows1_def readRows2_def readRows3_def Let_def cong: if_cong)

lemma maf_update_keeps:
  assumes "maf_update t = Returns (ok, s')"
  shows "row0_fields s' = row0_fields t" "row1_fields s' = row1_fields t"
    "row2_fields s' = row2_fields t" "knoc s' = knoc t"
  using assms
  by (auto simp: maf_update_def Let_def row0_fields_def row1_fields_def row2_fields_def
        split: if_splits)

lemma readRows3_keeps:
  assumes "readRows3 t = Returns (ok, s')"
  shows "row0_fields s' = row0_fields t" "row1_fields s' = row1_fields t"
    "row2_fields s' = row2_fields t"
proof -
  obtain k c u where u: "sendcmd (row_cmd 0x30) t = Returns (k, c, u)"
    using assms by (cases "sendcmd (row_cmd 0x30) t") (auto simp: readRows3_def)
  have "row0_fields s' = row0_fields t \<and> row1_fields s' = row1_fields t
        \<and> row2_fields s' = row2_fields t"
  proof (cases k)
    case False
    with assms u have "s' = u" by (simp add: readRows3_def)
    then show ?thesis by (simp add: sendcmd_keeps [OF u])
  next
    case True
    with assms u have m: "maf_update (row3_decode u) = Returns (ok, s')"
      by (simp add: readRows3_def)
    show ?thesis
      by (simp add: maf_update_keeps [OF m] row3_decode_keeps sendcmd_keeps [OF u])
  qed
  then show "row0_fields s' = row0_fields t" "row1_fields s' = row1_fields t"
    "row2_fields s' = row2_fields t" by simp_all
qed

lemma readRows2_keeps:
  assumes "readRows2 t = Returns (ok, s')"
  shows "row0_fields s' = row0_fields t" "row1_fields s' = row1_fields t"
proof -
  obtain k c u where u: "sendcmd (row_cmd 0x20) t = Returns (k, c, u)"
    using assms by (cases "sendcmd (row_cmd 0x20) t") (auto simp: readRows2_def)
  have "row0_fields s' = row0_fields t \<and> row1_fields s' = row1_fields t"
  proof (cases k)
    case False
    with assms u have "s' = u" by (simp add: readRows2_def)
    then show ?thesis by (simp add: sendcmd_keeps [OF u])
  next
    case True
    with assms u have m: "readRows3 (row2_decode u) = Returns (ok, s')"
      by (simp add: readRows2_def)
    show ?thesis
      by (simp add: readRows3_keeps [OF m] row2_decode_keeps sendcmd_keeps [OF u])
  qed
  then show "row0_fields s' = row0_fields t" "row1_fields s' = row1_fields t" by simp_all
qed

lemma readRows1_keeps:
  assumes "readRows1 t = Returns (ok, s')"
  shows "row0_fields s' = row0_fields t"
proof -
  obtain k c u where u: "sendcmd (row_cmd HOBD_OFF_ECT) t = Returns (k, c, u)"
    using assms by (cases "sendcmd (row_cmd HOBD_OFF_ECT) t") (auto simp: readRows1_def)
  show ?thesis
  proof (cases k)
    case False
    with assms u have "s' = u" by (simp add: readRows1_def)
    then show ?thesis by (simp add: sendcmd_keeps [OF u])
  next
    case True
    with assms u have m: "readRows2 (row1_decode u) = Returns (ok, s')"
      by (simp add: readRows1_def)
    show ?thesis
      by (simp add: readRows2_keeps [OF m] row1_decode_keeps sendcmd_keeps [OF u])
  qed
qed

lemma readRows1_row1:
  assumes "readRows1 t = Returns (ok, s')"
    and u: "sendcmd (row_cmd HOBD_OFF_ECT) t = Returns (True, c, u)"
  shows "row1_fields s' = row1_fields (row1_decode u)"
proof -
  from assms have m: "readRows2 (row1_decode u) = Returns (ok, s')"
    by (simp add: readRows1_def)
  show ?thesis by (simp add: readRows2_keeps [OF m])
qed

lemma row0_decode_rpm:
  "rpm (row0_decode s)
   = (if obd_sel s = 1
      then 1875000 div (256 * uint (dlcData s ! 2) + uint (dlcData s ! 3) + 1)
      else max 0 (rpm s))"
proof (cases "obd_sel s = 1")
  case False
  then show ?thesis by (simp add: row0_decode_def Let_def max_def)
next
  case True
  define raw where "raw = uint (rx_u16 (dlcData s) 2)"
  have raw: "raw = 256 * uint (dlcData s ! 2) + uint (dlcData s ! 3)"
    unfolding raw_def by (simp add: rx_u16_big_endian)
  have rb: "0 \<le> raw" "raw < 65536"
    using uint_bounded [of "rx_u16 (dlcData s) 2"] by (simp_all add: raw_def)
  have f1: "f32 (of_int raw) = of_int raw" using rb by (intro f32_of_int) simp_all
  have f2: "f32 1 = 1" using f32_of_int [of 1] by simp
  have f3: "f32 (of_int raw + 1) = of_int (raw + 1)"
    using f32_of_int [of "raw + 1"] rb by simp
  have f4: "f32 1875000 = 1875000" using f32_of_int [of 1875000] by simp
  have q: "trunc (f32 (1875000 / of_int (raw + 1))) = 1875000 div (raw + 1)"
    using rb by (intro rpm_quotient) simp_all
  have nn: "0 \<le> 1875000 div (raw + 1)"
    using rb by (simp add: pos_imp_zdiv_nonneg_iff)
  have "trunc (f32 (f32 1875000 / f32 (f32 (of_int raw) + f32 1))) = 1875000 div (raw + 1)"
    unfolding f1 f2 f3 f4 by (rule q)
  then have "rpm (row0_decode s) = 1875000 div (raw + 1)"
    using True nn
    by (simp add: row0_decode_def Let_def RPL_OFFSET_def HOBD_OFF_RPM_def raw_def
          del: of_int_uint)
  then show ?thesis using True by (simp add: raw)
qed

lemma readLiveData_fail_row1:
  assumes "sendcmd (row_cmd HOBD_OFF_RPM) s = Returns (True, c1, s1)"
    and "sendcmd (row_cmd HOBD_OFF_ECT) (row0_decode s1) = Returns (False, c2, s2)"
  shows "readLiveData s = Returns (False, s2)"
  using assms by (simp add: readLiveData_def)

lemma readLiveData_fail_row2:
  assumes "sendcmd (row_cmd HOBD_OFF_RPM) s = Returns (True, c1, s1)"
    and "sendcmd (row_cmd HOBD_OFF_ECT) (row0_decode s1) = Returns (True, c2, s2)"
    and "sendcmd (row_cmd 0x20) (row1_decode s2) = Returns (False, c3, s3)"
  shows "readLiveData s = Returns (False, s3)"
  using assms by (simp add: readLiveData_def)

lemma more_reply_facts:
  "length reply_zero = 19" "mkcrc reply_zero 18 = last reply_zero"
  "length reply_row1_low = 19" "mkcrc reply_row1_low 18 = last reply_row1_low"
  by code_simp+

lemma ecu2_on_simps:
  "rx (dlc (ecu2_on evs)) = evs" "errLen (ecu2_on evs) = 0" "obd_sel (ecu2_on evs) = 2"
  "rpm (ecu2_on evs) = 0"
  by (simp_all add: ecu2_on_def ECUData_new_def)

text \<open>A good reply for register 0x00 followed by a bad one: the call fails at the second block.\<close>

lemma row0_then_bad:
  assumes "rx (dlc S) = map Some resp @ map Some reply_bad" and "length resp = 19"
    and "mkcrc resp 18 = last resp" and "errLen S = 0"
  obtains c1 s1 s2 where "sendcmd (row_cmd HOBD_OFF_RPM) S = Returns (True, c1, s1)"
    and "dlcData s1 = resp @ [0]" and "readLiveData S = Returns (False, s2)"
proof -
  obtain c1 s1 where a: "sendcmd (row_cmd HOBD_OFF_RPM) S = Returns (True, c1, s1)"
    and s1: "dlcData s1 = resp @ [0]" "rx (dlc s1) = map Some reply_bad" "errLen s1 = errLen S"
    by (rule sendcmd_row_ok [of S resp "map Some reply_bad" HOBD_OFF_RPM])
       (simp_all add: assms)
  obtain c2 s2 where b: "sendcmd (row_cmd HOBD_OFF_ECT) (row0_decode s1) = Returns (False, c2, s2)"
    by (rule stage_bad [of "row0_decode s1" HOBD_OFF_ECT])
       (simp_all add: row0_decode_keeps s1 assms)
  from readLiveData_fail_row1 [OF a b] a s1 show ?thesis by (intro that [of c1 s1 s2])
qed

lemma row1_decode_tps_map:
  "tps (row1_decode s) = tdiv (uint (dlcData s ! 6) - 24) 2"
  "maps_kpa (row1_decode s) = trunc (conv_kpa (dlcData s ! 4))"
  "baro (row1_decode s) = trunc (conv_kpa (dlcData s ! 5))"
  by (simp_all add: row1_decode_def Let_def RPL_OFFSET_def HOBD_OFF_TPS_def HOBD_OFF_ECT_def
        HOBD_OFF_MAP_def)

lemma conv_kpa_1: "trunc (conv_kpa 1) = - 4"
  by code_simp

text \<open>Good replies for the registers 0x00 and 0x10, then a bad one: the call fails at the third block.\<close>

lemma row01_then_bad:
  assumes "rx (dlc S) = map Some reply_row0 @ map Some resp @ map Some reply_bad"
    and "length resp = 19" and "mkcrc resp 18 = last resp" and "errLen S = 0"
  obtains c1 s1 c2 s2 s3 where "sendcmd (row_cmd HOBD_OFF_RPM) S = Returns (True, c1, s1)"
    and "sendcmd (row_cmd HOBD_OFF_ECT) (row0_decode s1) = Returns (True, c2, s2)"
    and "dlcData s2 = resp @ [0]" and "readLiveData S = Returns (False, s3)"
proof -
  obtain c1 s1 where a: "sendcmd (row_cmd HOBD_OFF_RPM) S = Returns (True, c1, s1)"
    and s1: "rx (dlc s1) = map Some resp @ map Some reply_bad" "errLen s1 = errLen S"
    by (rule sendcmd_row_ok [of S reply_row0 "map Some resp @ map Some reply_bad" HOBD_OFF_RPM])
       (simp_all add: assms reply_lengths reply_crcs)
  obtain c2 s2 where b: "sendcmd (row_cmd HOBD_OFF_ECT) (row0_decode s1) = Returns (True, c2, s2)"
    and s2: "dlcData s2 = resp @ [0]" "rx (dlc s2) = map Some reply_bad"
      "errLen s2 = errLen (row0_decode s1)"
    by (rule sendcmd_row_ok [of "row0_decode s1" resp "map Some reply_bad" HOBD_OFF_ECT])
       (simp_all add: assms row0_decode_keeps s1)
  obtain c3 s3 where c: "sendcmd (row_cmd 0x20) (row1_decode s2) = Returns (False, c3, s3)"
    by (rule stage_bad [of "row1_decode s2" "0x20"])
       (simp_all add: row1_decode_keeps row0_decode_keeps s1 s2 assms)
  from readLiveData_fail_row2 [OF a b c] a b s2 show ?thesis
    by (intro that [of c1 s1 c2 s2 s3])
qed

lemma pressure_examples:
  "trunc (716 / 1000 * of_int (uint (50 :: byte)) - 5) = 30"
  "trunc (716 / 1000 * of_int (uint (140 :: byte)) - 5) = 95"
  "trunc (716 / 1000 * of_int (uint (1 :: byte)) - 5) = - 4"
  "trunc (716 / 1000 * of_int (uint (0 :: byte)) - 5) = - 5"
  "tdiv (uint (44 :: byte) - 24) 2 = 10" "tdiv (uint (24 :: byte) - 24) 2 = 0"
  by code_simp+

section \<open>Claims about the decoder\<close>

text \<open>
  C9.  The four row transactions go to the registers 0x00, 0x10, 0x20 and 0x30 in this
  order, each asking for 16 bytes.  When the \<open>k\<close>-th of them fails,
  \<open>readLiveData\<close> returns failure with the object as that transaction left it: only
  the first \<open>k\<close> command frames have been written to the line, the members assigned
  by the blocks before \<open>k\<close> hold what those blocks decoded, and the members assigned
  by block \<open>k\<close> and the later blocks, \<open>maf\<close> included, hold what they held
  before the call.
\<close>

theorem readLiveData_partial_failure:
  "(sendcmd (row_cmd HOBD_OFF_RPM) s = Returns (False, c1, s1) \<longrightarrow>
      readLiveData s = Returns (False, s1)
      \<and> tx (dlc s1) = tx (dlc s) @ tx_frame (row_cmd HOBD_OFF_RPM)
      \<and> row0_fields s1 = row0_fields s \<and> row1_fields s1 = row1_fields s
      \<and> row2_fields s1 = row2_fields s \<and> knoc s1 = knoc s \<and> maf s1 = maf s)
   \<and> (sendcmd (row_cmd HOBD_OFF_RPM) s = Returns (True, c1, s1)
        \<and> sendcmd (row_cmd HOBD_OFF_ECT) (row0_decode s1) = Returns (False, c2, s2) \<longrightarrow>
      readLiveData s = Returns (False, s2)
      \<and> tx (dlc s2) = tx (dlc s) @ tx_frame (row_cmd HOBD_OFF_RPM)
                        @ tx_frame (row_cmd HOBD_OFF_ECT)
      \<and> row0_fields s2 = row0_fields (row0_decode s1) \<and> row1_fields s2 = row1_fields s
      \<and> row2_fields s2 = row2_fields s \<and> knoc s2 = knoc s \<and> maf s2 = maf s)
   \<and> (sendcmd (row_cmd HOBD_OFF_RPM) s = Returns (True, c1, s1)
        \<and> sendcmd (row_cmd HOBD_OFF_ECT) (row0_decode s1) = Returns (True, c2, s2)
        \<and> sendcmd (row_cmd 0x20) (row1_decode s2) = Returns (False, c3, s3) \<longrightarrow>
      readLiveData s = Returns (False, s3)
      \<and> tx (dlc s3) = tx (dlc s) @ tx_frame (row_cmd HOBD_OFF_RPM)
                        @ tx_frame (row_cmd HOBD_OFF_ECT) @ tx_frame (row_cmd 0x20)
      \<and> row0_fields s3 = row0_fields (row0_decode s1)
      \<and> row1_fields s3 = row1_fields (row1_decode s2)
      \<and> row2_fields s3 = row2_fields s \<and> knoc s3 = knoc s \<and> maf s3 = maf s)
   \<and> (sendcmd (row_cmd HOBD_OFF_RPM) s = Returns (True, c1, s1)
        \<and> sendcmd (row_cmd HOBD_OFF_ECT) (row0_decode s1) = Returns (True, c2, s2)
        \<and> sendcmd (row_cmd 0x20) (row1_decode s2) = Returns (True, c3, s3)
        \<and> sendcmd (row_cmd 0x30) (row2_decode s3) = Returns (False, c4, s4) \<longrightarrow>
      readLiveData s = Returns (False, s4)
      \<and> tx (dlc s4) = tx (dlc s) @ tx_frame (row_cmd HOBD_OFF_RPM)
                        @ tx_frame (row_cmd HOBD_OFF_ECT) @ tx_frame (row_cmd 0x20)
                        @ tx_frame (row_cmd 0x30)
      \<and> row0_fields s4 = row0_fields (row0_decode s1)
      \<and> row1_fields s4 = row1_fields (row1_decode s2)
      \<and> row2_fields s4 = row2_fields (row2_decode s3)
      \<and> knoc s4 = knoc s \<and> maf s4 = maf s)"
proof (intro conjI impI; (elim conjE)?)
  assume a: "sendcmd (row_cmd HOBD_OFF_RPM) s = Returns (False, c1, s1)"
  show "readLiveData s = Returns (False, s1)" by (simp add: readLiveData_def a)
  show "tx (dlc s1) = tx (dlc s) @ tx_frame (row_cmd HOBD_OFF_RPM)" by (rule sendcmd_tx [OF a])
  show "row0_fields s1 = row0_fields s" "row1_fields s1 = row1_fields s"
    "row2_fields s1 = row2_fields s" "knoc s1 = knoc s" "maf s1 = maf s"
    by (rule sendcmd_keeps [OF a])+
next
  assume a: "sendcmd (row_cmd HOBD_OFF_RPM) s = Returns (True, c1, s1)"
    and b: "sendcmd (row_cmd HOBD_OFF_ECT) (row0_decode s1) = Returns (False, c2, s2)"
  show "readLiveData s = Returns (False, s2)" by (simp add: readLiveData_def a b)
  show "tx (dlc s2) = tx (dlc s) @ tx_frame (row_cmd HOBD_OFF_RPM)
                        @ tx_frame (row_cmd HOBD_OFF_ECT)"
    by (simp add: sendcmd_tx [OF a] sendcmd_tx [OF b] row0_decode_keeps)
  show "row0_fields s2 = row0_fields (row0_decode s1)" by (rule sendcmd_keeps [OF b])
  show "row1_fields s2 = row1_fields s" "row2_fields s2 = row2_fields s"
    "knoc s2 = knoc s" "maf s2 = maf s"
    by (simp_all add: sendcmd_keeps [OF a] sendcmd_keeps [OF b] row0_decode_keeps)
next
  assume a: "sendcmd (row_cmd HOBD_OFF_RPM) s = Returns (True, c1, s1)"
    and b: "sendcmd (row_cmd HOBD_OFF_ECT) (row0_decode s1) = Returns (True, c2, s2)"
    and c: "sendcmd (row_cmd 0x20) (row1_decode s2) = Returns (False, c3, s3)"
  show "readLiveData s = Returns (False, s3)" by (simp add: readLiveData_def a b c)
  show "tx (dlc s3) = tx (dlc s) @ tx_frame (row_cmd HOBD_OFF_RPM)
                        @ tx_frame (row_cmd HOBD_OFF_ECT) @ tx_frame (row_cmd 0x20)"
    by (simp add: sendcmd_tx [OF a] sendcmd_tx [OF b] sendcmd_tx [OF c]
          row0_decode_keeps row1_decode_keeps)
  show "row0_fields s3 = row0_fields (row0_decode s1)"
    by (simp add: sendcmd_keeps [OF b] sendcmd_keeps [OF c] row1_decode_keeps)
  show "row1_fields s3 = row1_fields (row1_decode s2)" by (rule sendcmd_keeps [OF c])
  show "row2_fields s3 = row2_fields s" "knoc s3 = knoc s" "maf s3 = maf s"
    by (simp_all add: sendcmd_keeps [OF a] sendcmd_keeps [OF b] sendcmd_keeps [OF c]
          row0_decode_keeps row1_decode_keeps)
next
  assume a: "sendcmd (row_cmd HOBD_OFF_RPM) s = Returns (True, c1, s1)"
    and b: "sendcmd (row_cmd HOBD_OFF_ECT) (row0_decode s1) = Returns (True, c2, s2)"
    and c: "sendcmd (row_cmd 0x20) (row1_decode s2) = Returns (True, c3, s3)"
    and d: "sendcmd (row_cmd 0x30) (row2_decode s3) = Returns (False, c4, s4)"
  show "readLiveData s = Returns (False, s4)" by (simp add: readLiveData_def a b c d)
  show "tx (dlc s4) = tx (dlc s) @ tx_frame (row_cmd HOBD_OFF_RPM)
                        @ tx_frame (row_cmd HOBD_OFF_ECT) @ tx_frame (row_cmd 0x20)
                        @ tx_frame (row_cmd 0x30)"
    by (simp add: sendcmd_tx [OF a] sendcmd_tx [OF b] sendcmd_tx [OF c] sendcmd_tx [OF d]
          row0_decode_keeps row1_decode_keeps row2_decode_keeps)
  show "row0_fields s4 = row0_fields (row0_decode s1)"
    by (simp add: sendcmd_keeps [OF b] sendcmd_keeps [OF c] sendcmd_keeps [OF d]
          row1_decode_keeps row2_decode_keeps)
  show "row1_fields s4 = row1_fields (row1_decode s2)"
    by (simp add: sendcmd_keeps [OF c] sendcmd_keeps [OF d] row2_decode_keeps)
  show "row2_fields s4 = row2_fields (row2_decode s3)" by (rule sendcmd_keeps [OF d])
  show "knoc s4 = knoc s" "maf s4 = maf s"
    by (simp_all add: sendcmd_keeps [OF a] sendcmd_keeps [OF b] sendcmd_keeps [OF c]
          sendcmd_keeps [OF d] row0_decode_keeps row1_decode_keeps row2_decode_keeps)
qed

theorem readLiveData_partial_failure_witness:
  "(\<exists>t. readLiveData (ecu_on (map Some reply_bad)) = Returns (False, t)
        \<and> tx (dlc t) = tx_frame (row_cmd HOBD_OFF_RPM)
        \<and> row0_fields t = (0, 0, False, False, False, False, False, False)
        \<and> row1_fields t = (0, 0, 0, 0, 0, 0, 0, 0, 0)
        \<and> row2_fields t = (0, 0, 0, 0, 0, 0) \<and> knoc t = 0 \<and> maf t = 0)
   \<and> (\<exists>t. readLiveData (ecu_on (map Some reply_row0 @ map Some reply_bad)) = Returns (False, t)
        \<and> tx (dlc t) = tx_frame (row_cmd HOBD_OFF_RPM) @ tx_frame (row_cmd HOBD_OFF_ECT)
        \<and> row0_fields t = (1875, 50, True, True, False, False, True, True)
        \<and> row1_fields t = (0, 0, 0, 0, 0, 0, 0, 0, 0)
        \<and> row2_fields t = (0, 0, 0, 0, 0, 0) \<and> knoc t = 0 \<and> maf t = 0)
   \<and> (\<exists>t. readLiveData (ecu_on (map Some reply_row0 @ map Some reply_row1 @ map Some reply_bad))
          = Returns (False, t)
        \<and> tx (dlc t) = tx_frame (row_cmd HOBD_OFF_RPM) @ tx_frame (row_cmd HOBD_OFF_ECT)
                        @ tx_frame (row_cmd 0x20)
        \<and> row0_fields t = (1875, 50, True, True, False, False, True, True)
        \<and> row1_fields t = (- 55, - 63, 30, 95, 10, 1308165 / 524288, 6421901 / 524288, 20,
                            8808855 / 131072)
        \<and> row2_fields t = (0, 0, 0, 0, 0, 0) \<and> knoc t = 0 \<and> maf t = 0)
   \<and> (\<exists>t. readLiveData (ecu_on (map Some reply_row0 @ map Some reply_row1
                                  @ map Some reply_row2 @ map Some reply_bad))
          = Returns (False, t)
        \<and> tx (dlc t) = tx_frame (row_cmd HOBD_OFF_RPM) @ tx_frame (row_cmd HOBD_OFF_ECT)
                        @ tx_frame (row_cmd 0x20) @ tx_frame (row_cmd 0x30)
        \<and> row0_fields t = (1875, 50, True, True, False, False, True, True)
        \<and> row1_fields t = (- 55, - 63, 30, 95, 10, 1308165 / 524288, 6421901 / 524288, 20,
                            8808855 / 131072)
        \<and> row2_fields t = (1, - 6, 4, 5, 10, 20) \<and> knoc t = 0 \<and> maf t = 0)"
proof (intro conjI)
  let ?S = "ecu_on (map Some reply_bad)"
  obtain c1 s1 where a: "sendcmd (row_cmd HOBD_OFF_RPM) ?S = Returns (False, c1, s1)"
    by (rule stage_bad [of ?S HOBD_OFF_RPM]) (simp_all add: ecu_on_simps)
  from readLiveData_partial_failure [of ?S c1 s1] a
  have "readLiveData ?S = Returns (False, s1)
      \<and> tx (dlc s1) = tx (dlc ?S) @ tx_frame (row_cmd HOBD_OFF_RPM)
      \<and> row0_fields s1 = row0_fields ?S \<and> row1_fields s1 = row1_fields ?S
      \<and> row2_fields s1 = row2_fields ?S \<and> knoc s1 = knoc ?S \<and> maf s1 = maf ?S"
    by blast
  then show "\<exists>t. readLiveData ?S = Returns (False, t)
        \<and> tx (dlc t) = tx_frame (row_cmd HOBD_OFF_RPM)
        \<and> row0_fields t = (0, 0, False, False, False, False, False, False)
        \<and> row1_fields t = (0, 0, 0, 0, 0, 0, 0, 0, 0)
        \<and> row2_fields t = (0, 0, 0, 0, 0, 0) \<and> knoc t = 0 \<and> maf t = 0"
    by (intro exI [of _ s1]) (simp add: ecu_on_simps)
next
  let ?S = "ecu_on (map Some reply_row0 @ map Some reply_bad)"
  obtain c1 s1 where a: "sendcmd (row_cmd HOBD_OFF_RPM) ?S = Returns (True, c1, s1)"
    and s1: "rx (dlc s1) = map Some reply_bad" "errLen s1 = 0"
    and r0: "row0_fields (row0_decode s1) = (1875, 50, True, True, False, False, True, True)"
    by (rule stage_row0 [of "map Some reply_bad"])
  obtain c2 s2 where b: "sendcmd (row_cmd HOBD_OFF_ECT) (row0_decode s1) = Returns (False, c2, s2)"
    by (rule stage_bad [of "row0_decode s1" HOBD_OFF_ECT]) (simp_all add: row0_decode_keeps s1)
  from readLiveData_partial_failure [of ?S c1 s1 c2 s2] a b
  have "readLiveData ?S = Returns (False, s2)
      \<and> tx (dlc s2) = tx (dlc ?S) @ tx_frame (row_cmd HOBD_OFF_RPM)
                        @ tx_frame (row_cmd HOBD_OFF_ECT)
      \<and> row0_fields s2 = row0_fields (row0_decode s1) \<and> row1_fields s2 = row1_fields ?S
      \<and> row2_fields s2 = row2_fields ?S \<and> knoc s2 = knoc ?S \<and> maf s2 = maf ?S"
    by blast
  then show "\<exists>t. readLiveData ?S = Returns (False, t)
        \<and> tx (dlc t) = tx_frame (row_cmd HOBD_OFF_RPM) @ tx_frame (row_cmd HOBD_OFF_ECT)
        \<and> row0_fields t = (1875, 50, True, True, False, False, True, True)
        \<and> row1_fields t = (0, 0, 0, 0, 0, 0, 0, 0, 0)
        \<and> row2_fields t = (0, 0, 0, 0, 0, 0) \<and> knoc t = 0 \<and> maf t = 0"
    by (intro exI [of _ s2]) (simp add: ecu_on_simps r0)
next
  let ?S = "ecu_on (map Some reply_row0 @ map Some reply_row1 @ map Some reply_bad)"
  obtain c1 s1 where a: "sendcmd (row_cmd HOBD_OFF_RPM) ?S = Returns (True, c1, s1)"
    and s1: "rx (dlc s1) = map Some reply_row1 @ map Some reply_bad" "errLen s1 = 0"
    and r0: "row0_fields (row0_decode s1) = (1875, 50, True, True, False, False, True, True)"
    by (rule stage_row0 [of "map Some reply_row1 @ map Some reply_bad"])
  obtain c2 s2 where b: "sendcmd (row_cmd HOBD_OFF_ECT) (row0_decode s1) = Returns (True, c2, s2)"
    and s2: "rx (dlc s2) = map Some reply_bad" "errLen s2 = errLen (row0_decode s1)"
    and r1: "row1_fields (row1_decode s2)
         = (- 55, - 63, 30, 95, 10, 1308165 / 524288, 6421901 / 524288, 20, 8808855 / 131072)"
    by (rule stage_row1 [of "row0_decode s1" "map Some reply_bad"])
       (simp_all add: row0_decode_keeps s1)
  obtain c3 s3 where c: "sendcmd (row_cmd 0x20) (row1_decode s2) = Returns (False, c3, s3)"
    by (rule stage_bad [of "row1_decode s2" "0x20"])
       (simp_all add: row1_decode_keeps row0_decode_keeps s1 s2)
  from readLiveData_partial_failure [of ?S c1 s1 c2 s2 c3 s3] a b c
  have "readLiveData ?S = Returns (False, s3)
      \<and> tx (dlc s3) = tx (dlc ?S) @ tx_frame (row_cmd HOBD_OFF_RPM)
                        @ tx_frame (row_cmd HOBD_OFF_ECT) @ tx_frame (row_cmd 0x20)
      \<and> row0_fields s3 = row0_fields (row0_decode s1)
      \<and> row1_fields s3 = row1_fields (row1_decode s2)
      \<and> row2_fields s3 = row2_fields ?S \<and> knoc s3 = knoc ?S \<and> maf s3 = maf ?S"
    by blast
  then show "\<exists>t. readLiveData ?S = Returns (False, t)
        \<and> tx (dlc t) = tx_frame (row_cmd HOBD_OFF_RPM) @ tx_frame (row_cmd HOBD_OFF_ECT)
                        @ tx_frame (row_cmd 0x20)
        \<and> row0_fields t = (1875, 50, True, True, False, False, True, True)
        \<and> row1_fields t = (- 55, - 63, 30, 95, 10, 1308165 / 524288, 6421901 / 524288, 20,
                            8808855 / 131072)
        \<and> row2_fields t = (0, 0, 0, 0, 0, 0) \<and> knoc t = 0 \<and> maf t = 0"
    by (intro exI [of _ s3]) (simp add: ecu_on_simps r0 r1)
next
  let ?S = "ecu_on (map Some reply_row0 @ map Some reply_row1
                    @ map Some reply_row2 @ map Some reply_bad)"
  obtain c1 s1 where a: "sendcmd (row_cmd HOBD_OFF_RPM) ?S = Returns (True, c1, s1)"
    and s1: "rx (dlc s1) = map Some reply_row1 @ map Some reply_row2 @ map Some reply_bad"
      "errLen s1 = 0"
    and r0: "row0_fields (row0_decode s1) = (1875, 50, True, True, False, False, True, True)"
    by (rule stage_row0 [of "map Some reply_row1 @ map Some reply_row2 @ map Some reply_bad"])
  obtain c2 s2 where b: "sendcmd (row_cmd HOBD_OFF_ECT) (row0_decode s1) = Returns (True, c2, s2)"
    and s2: "rx (dlc s2) = map Some reply_row2 @ map Some reply_bad"
      "errLen s2 = errLen (row0_decode s1)"
    and r1: "row1_fields (row1_decode s2)
         = (- 55, - 63, 30, 95, 10, 1308165 / 524288, 6421901 / 524288, 20, 8808855 / 131072)"
    by (rule stage_row1 [of "row0_decode s1" "map Some reply_row2 @ map Some reply_bad"])
       (simp_all add: row0_decode_keeps s1)
  obtain c3 s3 where c: "sendcmd (row_cmd 0x20) (row1_decode s2) = Returns (True, c3, s3)"
    and s3: "rx (dlc s3) = map Some reply_bad" "errLen s3 = errLen (row1_decode s2)"
    and r2: "row2_fields (row2_decode s3) = (1, - 6, 4, 5, 10, 20)"
    by (rule stage_row2 [of "row1_decode s2" "map Some reply_bad"])
       (simp_all add: row1_decode_keeps s2)
  obtain c4 s4 where d: "sendcmd (row_cmd 0x30) (row2_decode s3) = Returns (False, c4, s4)"
    by (rule stage_bad [of "row2_decode s3" "0x30"])
       (simp_all add: row2_decode_keeps row1_decode_keeps row0_decode_keeps s1 s2 s3)
  from readLiveData_partial_failure [of ?S c1 s1 c2 s2 c3 s3 c4 s4] a b c d
  have "readLiveData ?S = Returns (False, s4)
      \<and> tx (dlc s4) = tx (dlc ?S) @ tx_frame (row_cmd HOBD_OFF_RPM)
                        @ tx_frame (row_cmd HOBD_OFF_ECT) @ tx_frame (row_cmd 0x20)
                        @ tx_frame (row_cmd 0x30)
      \<and> row0_fields s4 = row0_fields (row0_decode s1)
      \<and> row1_fields s4 = row1_fields (row1_decode s2)
      \<and> row2_fields s4 = row2_fields (row2_decode s3)
      \<and> knoc s4 = knoc ?S \<and> maf s4 = maf ?S"
    by blast
  then show "\<exists>t. readLiveData ?S = Returns (False, t)
        \<and> tx (dlc t) = tx_frame (row_cmd HOBD_OFF_RPM) @ tx_frame (row_cmd HOBD_OFF_ECT)
                        @ tx_frame (row_cmd 0x20) @ tx_frame (row_cmd 0x30)
        \<and> row0_fields t = (1875, 50, True, True, False, False, True, True)
        \<and> row1_fields t = (- 55, - 63, 30, 95, 10, 1308165 / 524288, 6421901 / 524288, 20,
                            8808855 / 131072)
        \<and> row2_fields t = (1, - 6, 4, 5, 10, 20) \<and> knoc t = 0 \<and> maf t = 0"
    by (intro exI [of _ s4]) (simp add: ecu_on_simps r0 r1 r2)
qed

text \<open>
  C6, as amended.  The first block of \<open>readLiveData\<close> assigns \<open>rpm\<close> only when
  \<open>obd_sel\<close> is 1.  Then, whenever the first transaction succeeds and the call returns,
  \<open>rpm\<close> is \<open>1875000 / (r + 1)\<close> with the fraction dropped, where \<open>r\<close> is the
  big-endian word at payload offset 0 (bytes 2 and 3 of the response buffer); the
  single-precision division and the conversion to \<open>int\<close> give exactly this integer
  quotient for every 16-bit \<open>r\<close>, and it is never negative.  With any other \<open>obd_sel\<close>
  the raw word is not used: \<open>rpm\<close> keeps its old value, raised to 0 if it was negative.
\<close>

theorem readLiveData_rpm:
  "sendcmd (row_cmd HOBD_OFF_RPM) s = Returns (True, c1, s1) \<Longrightarrow>
   readLiveData s = Returns (ok, s') \<Longrightarrow>
   rpm s' = (if obd_sel s = 1
             then 1875000 div (256 * uint (dlcData s1 ! 2) + uint (dlcData s1 ! 3) + 1)
             else max 0 (rpm s))"
proof -
  assume a: "sendcmd (row_cmd HOBD_OFF_RPM) s = Returns (True, c1, s1)"
    and r: "readLiveData s = Returns (ok, s')"
  from r a have t: "readRows1 (row0_decode s1) = Returns (ok, s')"
    by (simp add: readLiveData_rows)
  have "row0_fields s' = row0_fields (row0_decode s1)" by (rule readRows1_keeps [OF t])
  then have "rpm s' = rpm (row0_decode s1)" by (simp add: row0_fields_def)
  moreover have "obd_sel s1 = obd_sel s" by (rule sendcmd_keeps [OF a])
  moreover have "rpm s1 = rpm s" using sendcmd_keeps(1) [OF a] by (simp add: row0_fields_def)
  ultimately show ?thesis by (simp add: row0_decode_rpm)
qed

theorem readLiveData_rpm_witness:
  "(\<exists>t. readLiveData (ecu_on (map Some reply_row0 @ map Some reply_bad)) = Returns (False, t)
        \<and> rpm t = 1875)
   \<and> (\<exists>t. readLiveData (ecu_on (map Some reply_zero @ map Some reply_bad)) = Returns (False, t)
        \<and> rpm t = 1875000)
   \<and> (\<exists>t. readLiveData (ecu2_on (map Some reply_row0 @ map Some reply_bad)) = Returns (False, t)
        \<and> rpm t = 0)"
proof (intro conjI)
  let ?S = "ecu_on (map Some reply_row0 @ map Some reply_bad)"
  obtain c1 s1 s2 where a: "sendcmd (row_cmd HOBD_OFF_RPM) ?S = Returns (True, c1, s1)"
    and d: "dlcData s1 = reply_row0 @ [0]" and r: "readLiveData ?S = Returns (False, s2)"
    by (rule row0_then_bad [of ?S reply_row0]) (simp_all add: ecu_on_simps reply_lengths reply_crcs)
  from readLiveData_rpm [OF a r] have "rpm s2 = 1875"
    by (simp add: d ecu_on_simps reply_row0_def)
  with r show "\<exists>t. readLiveData ?S = Returns (False, t) \<and> rpm t = 1875" by blast
next
  let ?S = "ecu_on (map Some reply_zero @ map Some reply_bad)"
  obtain c1 s1 s2 where a: "sendcmd (row_cmd HOBD_OFF_RPM) ?S = Returns (True, c1, s1)"
    and d: "dlcData s1 = reply_zero @ [0]" and r: "readLiveData ?S = Returns (False, s2)"
    by (rule row0_then_bad [of ?S reply_zero]) (simp_all add: ecu_on_simps more_reply_facts)
  from readLiveData_rpm [OF a r] have "rpm s2 = 1875000"
    by (simp add: d ecu_on_simps reply_zero_def nth_append)
  with r show "\<exists>t. readLiveData ?S = Returns (False, t) \<and> rpm t = 1875000" by blast
next
  let ?S = "ecu2_on (map Some reply_row0 @ map Some reply_bad)"
  obtain c1 s1 s2 where a: "sendcmd (row_cmd HOBD_OFF_RPM) ?S = Returns (True, c1, s1)"
    and d: "dlcData s1 = reply_row0 @ [0]" and r: "readLiveData ?S = Returns (False, s2)"
    by (rule row0_then_bad [of ?S reply_row0]) (simp_all add: ecu2_on_simps reply_lengths reply_crcs)
  from readLiveData_rpm [OF a r] have "rpm s2 = 0"
    by (simp add: ecu2_on_simps)
  with r show "\<exists>t. readLiveData ?S = Returns (False, t) \<and> rpm t = 0" by blast
qed

text \<open>
  C6, as stated, fails on an object with \<open>obd_sel = 2\<close>: the reply carries the raw
  word 999, the first block runs, and \<open>rpm\<close> is still 0 when the call returns, not
  \<open>1875000 / 1000 = 1875\<close>.
\<close>

theorem rpm_kept_when_obd_sel_2:
  "map_option (rpm \<circ> snd)
     (returned (readLiveData (ecu2_on (map Some reply_row0 @ map Some reply_bad)))) = Some 0
   \<and> 256 * uint (reply_row0 ! 2) + uint (reply_row0 ! 3) = 999
   \<and> (0 :: int) \<noteq> 1875000 div (256 * uint (reply_row0 ! 2) + uint (reply_row0 ! 3) + 1)"
proof -
  let ?S = "ecu2_on (map Some reply_row0 @ map Some reply_bad)"
  obtain c1 s1 s2 where a: "sendcmd (row_cmd HOBD_OFF_RPM) ?S = Returns (True, c1, s1)"
    and r: "readLiveData ?S = Returns (False, s2)"
    by (rule row0_then_bad [of ?S reply_row0]) (simp_all add: ecu2_on_simps reply_lengths reply_crcs)
  from r a have t: "readRows1 (row0_decode s1) = Returns (False, s2)"
    by (simp add: readLiveData_rows)
  have "row0_fields s2 = row0_fields (row0_decode s1)" by (rule readRows1_keeps [OF t])
  then have "rpm s2 = rpm (row0_decode s1)" by (simp add: row0_fields_def)
  moreover have "obd_sel s1 = 2" using sendcmd_keeps(6) [OF a] by (simp add: ecu2_on_simps)
  moreover have "rpm s1 = 0" using sendcmd_keeps(1) [OF a]
    by (simp add: row0_fields_def ecu2_on_simps)
  ultimately have "rpm s2 = 0" by (simp add: row0_decode_rpm)
  with r have "map_option (rpm \<circ> snd) (returned (readLiveData ?S)) = Some 0" by simp
  moreover have "256 * uint (reply_row0 ! 2) + uint (reply_row0 ! 3) = 999"
    by (simp add: reply_row0_def)
  ultimately show ?thesis by simp
qed

text \<open>
  C7, as amended.  \<open>tps\<close>, \<open>maps\<close> and \<open>baro\<close> are \<open>int\<close> members.  Whenever
  the first two transactions succeed and the call returns, \<open>tps\<close> is
  \<open>(raw - 24) / 2\<close> by integer division, which truncates toward zero, and \<open>maps\<close>
  and \<open>baro\<close> are \<open>raw * 0.716 - 5.0\<close> truncated toward zero, for the raw bytes at
  payload offsets 4, 2 and 3 (bytes 6, 4 and 5 of the response buffer).  For every raw
  byte the single-precision computation truncates to the same integer as the exact value.
\<close>

theorem readLiveData_tps_map:
  "sendcmd (row_cmd HOBD_OFF_RPM) s = Returns (True, c1, s1) \<Longrightarrow>
   sendcmd (row_cmd HOBD_OFF_ECT) (row0_decode s1) = Returns (True, c2, s2) \<Longrightarrow>
   readLiveData s = Returns (ok, s') \<Longrightarrow>
   tps s' = tdiv (uint (dlcData s2 ! 6) - 24) 2
   \<and> maps_kpa s' = trunc (716 / 1000 * of_int (uint (dlcData s2 ! 4)) - 5)
   \<and> baro s' = trunc (716 / 1000 * of_int (uint (dlcData s2 ! 5)) - 5)"
proof -
  assume a: "sendcmd (row_cmd HOBD_OFF_RPM) s = Returns (True, c1, s1)"
    and b: "sendcmd (row_cmd HOBD_OFF_ECT) (row0_decode s1) = Returns (True, c2, s2)"
    and r: "readLiveData s = Returns (ok, s')"
  from r a have t: "readRows1 (row0_decode s1) = Returns (ok, s')"
    by (simp add: readLiveData_rows)
  have "row1_fields s' = row1_fields (row1_decode s2)" by (rule readRows1_row1 [OF t b])
  then have "tps s' = tps (row1_decode s2)" "maps_kpa s' = maps_kpa (row1_decode s2)"
    "baro s' = baro (row1_decode s2)"
    by (simp_all add: row1_fields_def)
  then show ?thesis by (simp only: row1_decode_tps_map conv_kpa_trunc simp_thms)
qed

theorem readLiveData_tps_map_witness:
  "(\<exists>t. readLiveData (ecu_on (map Some reply_row0 @ map Some reply_row1 @ map Some reply_bad))
          = Returns (False, t)
        \<and> tps t = 10 \<and> maps_kpa t = 30 \<and> baro t = 95)
   \<and> (\<exists>t. readLiveData (ecu_on (map Some reply_row0 @ map Some reply_row1_low
                                  @ map Some reply_bad))
          = Returns (False, t)
        \<and> tps t = 0 \<and> maps_kpa t = - 4 \<and> baro t = - 5)"
proof (intro conjI)
  let ?S = "ecu_on (map Some reply_row0 @ map Some reply_row1 @ map Some reply_bad)"
  obtain c1 s1 c2 s2 s3 where a: "sendcmd (row_cmd HOBD_OFF_RPM) ?S = Returns (True, c1, s1)"
    and b: "sendcmd (row_cmd HOBD_OFF_ECT) (row0_decode s1) = Returns (True, c2, s2)"
    and d: "dlcData s2 = reply_row1 @ [0]" and r: "readLiveData ?S = Returns (False, s3)"
    by (rule row01_then_bad [of ?S reply_row1])
       (simp_all add: ecu_on_simps reply_lengths reply_crcs)
  have e: "dlcData s2 ! 4 = 50" "dlcData s2 ! 5 = 140" "dlcData s2 ! 6 = 44"
    by (simp_all add: d reply_row1_def)
  from readLiveData_tps_map [OF a b r]
  have "tps s3 = 10 \<and> maps_kpa s3 = 30 \<and> baro s3 = 95"
    by (simp only: e pressure_examples)
  with r show "\<exists>t. readLiveData ?S = Returns (False, t)
        \<and> tps t = 10 \<and> maps_kpa t = 30 \<and> baro t = 95" by blast
next
  let ?S = "ecu_on (map Some reply_row0 @ map Some reply_row1_low @ map Some reply_bad)"
  obtain c1 s1 c2 s2 s3 where a: "sendcmd (row_cmd HOBD_OFF_RPM) ?S = Returns (True, c1, s1)"
    and b: "sendcmd (row_cmd HOBD_OFF_ECT) (row0_decode s1) = Returns (True, c2, s2)"
    and d: "dlcData s2 = reply_row1_low @ [0]" and r: "readLiveData ?S = Returns (False, s3)"
    by (rule row01_then_bad [of ?S reply_row1_low])
       (simp_all add: ecu_on_simps more_reply_facts)
  have e: "dlcData s2 ! 4 = 1" "dlcData s2 ! 5 = 0" "dlcData s2 ! 6 = 24"
    by (simp_all add: d reply_row1_low_def)
  from readLiveData_tps_map [OF a b r]
  have "tps s3 = 0 \<and> maps_kpa s3 = - 4 \<and> baro s3 = - 5"
    by (simp only: e pressure_examples)
  with r show "\<exists>t. readLiveData ?S = Returns (False, t)
        \<and> tps t = 0 \<and> maps_kpa t = - 4 \<and> baro t = - 5" by blast
qed

text \<open>
  C7, as stated, fails for the raw pressure byte 1: the stored \<open>maps\<close> is \<open>-4\<close>,
  which is not \<open>1 * 0.716 - 5.0 = -4.284\<close>.
\<close>

theorem map_is_truncated:
  "map_option (maps_kpa \<circ> snd)
     (returned (readLiveData
        (ecu_on (map Some reply_row0 @ map Some reply_row1_low @ map Some reply_bad))))
   = Some (- 4)
   \<and> uint (reply_row1_low ! 4) = 1
   \<and> (of_int (- 4) :: rat) \<noteq> 716 / 1000 * of_int (uint (reply_row1_low ! 4)) - 5"
proof -
  let ?S = "ecu_on (map Some reply_row0 @ map Some reply_row1_low @ map Some reply_bad)"
  obtain c1 s1 c2 s2 s3 where a: "sendcmd (row_cmd HOBD_OFF_RPM) ?S = Returns (True, c1, s1)"
    and b: "sendcmd (row_cmd HOBD_OFF_ECT) (row0_decode s1) = Returns (True, c2, s2)"
    and d: "dlcData s2 = reply_row1_low @ [0]" and r: "readLiveData ?S = Returns (False, s3)"
    by (rule row01_then_bad [of ?S reply_row1_low])
       (simp_all add: ecu_on_simps more_reply_facts)
  from r a have t: "readRows1 (row0_decode s1) = Returns (False, s3)"
    by (simp add: readLiveData_rows)
  have "row1_fields s3 = row1_fields (row1_decode s2)" by (rule readRows1_row1 [OF t b])
  then have "maps_kpa s3 = maps_kpa (row1_decode s2)" by (simp add: row1_fields_def)
  also have "\<dots> = trunc (conv_kpa (dlcData s2 ! 4))" by (rule row1_decode_tps_map)
  also have "dlcData s2 ! 4 = 1" by (simp add: d reply_row1_low_def)
  finally have "maps_kpa s3 = - 4" by (simp only: conv_kpa_1)
  with r have "map_option (maps_kpa \<circ> snd) (returned (readLiveData ?S)) = Some (- 4)" by simp
  moreover have "uint (reply_row1_low ! 4) = 1" by (simp add: reply_row1_low_def)
  ultimately show ?thesis by simp
qed

end
